theory Spec2Isabelle
  imports Complex_Main "HOL-Library.Word"
begin

section \<open>Mini Ping-Pong (ESP32, SSD1306, tone): the simulation core of main.ino\<close>

text \<open>
  The sketch keeps its whole state in global variables and advances it from \<open>loop()\<close>.
  The embedding below turns the globals into one record, every function that touches
  them into a function from record to record, and the hardware the sketch talks to
  (clock, buttons, pseudo-random generator, speaker, NVS) into explicit inputs and logs:
  \<^item> \<open>uint16_t\<close> and \<open>uint32_t\<close> are \<open>16 word\<close> and \<open>32 word\<close>: arithmetic wraps
    and \<open>\<le>\<close>, \<open><\<close> compare unsigned values, as in C;
  \<^item> \<open>int score\<close> is an \<open>int\<close>: while the game is played it stays between 0 and 10
    (lemma \<open>reachable_inv\<close>), far from the limits of a 32-bit \<open>int\<close>;
  \<^item> \<open>float\<close> values are real numbers. Every float addition, subtraction,
    multiplication and division is the exact operation followed by a rounding function
    \<open>rnd\<close>, which is a parameter of the model, and a decimal literal such as
    \<open>1.7f\<close> is \<open>rnd 1.7\<close>. For binary32 \<open>rnd\<close> is round-to-nearest-even. Comparisons,
    negation, \<open>fabs\<close>, the conversion of a small \<open>int\<close> and literals that are integers
    or halves are exact. Infinities and NaN are not modelled;
  \<^item> each \<open>millis()\<close>, \<open>digitalRead\<close> and \<open>random(0, 2)\<close> call reads a field of the
    tick's input record;
  \<^item> each \<open>sfx...\<close> call appends the cue to the log \<open>sfx\<close>, and each
    \<open>prefs.putUShort("best", v)\<close> appends \<open>v\<close> to the log \<open>nvs\<close>. The drawing
    routines change no game variable and are left out.
\<close>

subsection \<open>Constants\<close>

type_synonym u16 = "16 word"
type_synonym u32 = "32 word"

definition SCREEN_WIDTH :: int where "SCREEN_WIDTH = 128"
definition SCREEN_HEIGHT :: int where "SCREEN_HEIGHT = 64"

definition paddleWidth :: int where "paddleWidth = 24"
definition paddleHeight :: int where "paddleHeight = 4"
definition paddleY :: int where "paddleY = SCREEN_HEIGHT - paddleHeight - 1"
definition paddleSpeed :: "(real \<Rightarrow> real) \<Rightarrow> real" where "paddleSpeed rnd = rnd 5.2"

definition ballR :: int where "ballR = 2"

definition SLOW_SEC :: u16 where "SLOW_SEC = 20"
definition FAST_SEC :: u16 where "FAST_SEC = 5"

definition FPS :: u16 where "FPS = 60"
definition FRAME_INTERVAL :: u32 where "FRAME_INTERVAL = 1000 div ucast FPS"
definition BLINK_INTERVAL :: u32 where "BLINK_INTERVAL = 500"

subsection \<open>State\<close>

datatype GameState = STATE_START | STATE_PLAYING | STATE_GAMEOVER

datatype cue = PaddleHit | WallBounce | LosePoint | StartFirst | Party

record game =
  gameState :: GameState
  score :: int
  paddleX :: real
  ballX :: real
  ballY :: real
  ballVX :: real
  ballVY :: real
  speedMultiplier :: real
  fastMode :: bool
  modeStartSec :: u32
  lastFrameMs :: u32
  runStartMs :: u32
  lastSecondMs :: u32
  elapsedSec :: u16
  finalTimeCaptured :: bool
  finalElapsedSec :: u16
  bestTimeSec :: u16
  blinkOn :: bool
  lastBlinkMs :: u32
  hasPlayedFirstStartBeep :: bool
  t0 :: u32
  sfx :: "cue list"
  nvs :: "u16 list"

text \<open>
  \<open>t0\<close> is the function-local \<open>static uint32_t t0\<close> of \<open>bothButtonsHeld\<close>: it lives as
  long as the globals do.

  What one pass through \<open>loop()\<close> reads from the outside. A button is \<open>True\<close> when it
  is pressed (the pin reads LOW). The \<open>millis()\<close> readings are named after the place
  that takes them.
\<close>

record tick =
  now :: u32
  btnLeft :: bool
  btnRight :: bool
  rightSamples :: "bool list"
  rand :: int
  msReset :: u32
  msCapture :: u32
  msHoldStart :: u32
  msHoldCheck :: u32
  msBlink :: u32

subsection \<open>Audio cues\<close>

definition play :: "cue \<Rightarrow> game \<Rightarrow> game" where
  "play c s = s\<lparr>sfx := sfx s @ [c]\<rparr>"

definition sfxPaddleHit :: "game \<Rightarrow> game" where "sfxPaddleHit = play PaddleHit"
definition sfxWallBounce :: "game \<Rightarrow> game" where "sfxWallBounce = play WallBounce"
definition sfxLosePoint :: "game \<Rightarrow> game" where "sfxLosePoint = play LosePoint"
definition sfxStartFirst :: "game \<Rightarrow> game" where "sfxStartFirst = play StartFirst"
definition sfxParty :: "game \<Rightarrow> game" where "sfxParty = play Party"

subsection \<open>Restart hold\<close>

text \<open>
  \<open>bothButtonsHeld(msRequired)\<close> returns its verdict and leaves \<open>t0\<close> updated. The first
  reading of the clock is taken only when \<open>t0\<close> is 0.
\<close>

definition bothButtonsHeld :: "u16 \<Rightarrow> tick \<Rightarrow> game \<Rightarrow> bool \<times> game" where
  "bothButtonsHeld msRequired i s =
     (let l = btnLeft i; r = btnRight i in
      if l \<and> r then
        (let s1 = (if t0 s = 0 then s\<lparr>t0 := msHoldStart i\<rparr> else s)
         in (ucast msRequired \<le> msHoldCheck i - t0 s1, s1))
      else (False, s\<lparr>t0 := 0\<rparr>))"

subsection \<open>Ball and speed mode\<close>

definition resetBall :: "(real \<Rightarrow> real) \<Rightarrow> int \<Rightarrow> game \<Rightarrow> game" where
  "resetBall rnd r s =
     (let v = rnd 1.7 in
      s\<lparr>ballX := real_of_int SCREEN_WIDTH / 2,
        ballY := rnd (real_of_int SCREEN_HEIGHT / 3),
        ballVX := (if r = 0 then - v else v),
        ballVY := v\<rparr>)"

definition setSpeedMode :: "bool \<Rightarrow> game \<Rightarrow> game" where
  "setSpeedMode fast s =
     s\<lparr>fastMode := fast,
       speedMultiplier := (if fast then 2 else 1),
       modeStartSec := ucast (elapsedSec s)\<rparr>"

definition updateSpeedMode :: "game \<Rightarrow> game" where
  "updateSpeedMode s =
     (let elapsedInMode = (ucast (ucast (elapsedSec s) - modeStartSec s) :: u16) in
      if fastMode s then
        (if FAST_SEC \<le> elapsedInMode then setSpeedMode False s else s)
      else
        (if SLOW_SEC \<le> elapsedInMode then setSpeedMode True s else s))"

definition resetGameRuntime :: "u32 \<Rightarrow> game \<Rightarrow> game" where
  "resetGameRuntime ms s =
     (setSpeedMode False (s\<lparr>runStartMs := ms, lastSecondMs := ms, elapsedSec := 0\<rparr>))
       \<lparr>finalTimeCaptured := False, finalElapsedSec := 0\<rparr>"

definition resetGame :: "(real \<Rightarrow> real) \<Rightarrow> int \<Rightarrow> u32 \<Rightarrow> game \<Rightarrow> game" where
  "resetGame rnd r ms s =
     resetGameRuntime ms
       (resetBall rnd r
         (s\<lparr>score := 10,
            paddleX := real_of_int (SCREEN_WIDTH - paddleWidth) / 2\<rparr>))"

subsection \<open>Paddle\<close>

definition handleButtonsPaddle :: "(real \<Rightarrow> real) \<Rightarrow> tick \<Rightarrow> game \<Rightarrow> game" where
  "handleButtonsPaddle rnd i s =
     (let s1 = (if btnLeft i then s\<lparr>paddleX := rnd (paddleX s - paddleSpeed rnd)\<rparr> else s);
          s2 = (if btnRight i then s1\<lparr>paddleX := rnd (paddleX s1 + paddleSpeed rnd)\<rparr> else s1);
          s3 = (if paddleX s2 < 0 then s2\<lparr>paddleX := 0\<rparr> else s2)
      in if real_of_int (SCREEN_WIDTH - paddleWidth) < paddleX s3
         then s3\<lparr>paddleX := real_of_int (SCREEN_WIDTH - paddleWidth)\<rparr> else s3)"

subsection \<open>Final time and best time\<close>

definition captureFinalTimeAndUpdateBest :: "u32 \<Rightarrow> game \<Rightarrow> game" where
  "captureFinalTimeAndUpdateBest ms s =
     (if \<not> finalTimeCaptured s then
        (let s1 = s\<lparr>finalElapsedSec := ucast ((ms - runStartMs s) div 1000),
                    finalTimeCaptured := True\<rparr>
         in if bestTimeSec s1 < finalElapsedSec s1 then
              sfxParty (s1\<lparr>bestTimeSec := finalElapsedSec s1,
                          nvs := nvs s1 @ [finalElapsedSec s1]\<rparr>)
            else s1)
      else s)"

subsection \<open>Ball physics\<close>

text \<open>
  \<open>updateBall()\<close> is one function in the sketch; here its four blocks are named so that
  the state between them can be spoken about: the displacement (lines 271-272), the side
  walls (275-283), the ceiling (286-290) and the paddle line (293-324).
\<close>

definition updateBall_move :: "(real \<Rightarrow> real) \<Rightarrow> game \<Rightarrow> game" where
  "updateBall_move rnd s =
     s\<lparr>ballX := rnd (ballX s + rnd (ballVX s * speedMultiplier s)),
       ballY := rnd (ballY s + rnd (ballVY s * speedMultiplier s))\<rparr>"

definition updateBall_sides :: "(real \<Rightarrow> real) \<Rightarrow> game \<Rightarrow> game" where
  "updateBall_sides rnd s =
     (if rnd (ballX s - real_of_int ballR) \<le> 0 then
        sfxWallBounce (s\<lparr>ballX := real_of_int ballR, ballVX := \<bar>ballVX s\<bar>\<rparr>)
      else if real_of_int SCREEN_WIDTH \<le> rnd (ballX s + real_of_int ballR) then
        sfxWallBounce (s\<lparr>ballX := real_of_int (SCREEN_WIDTH - ballR), ballVX := - \<bar>ballVX s\<bar>\<rparr>)
      else s)"

definition updateBall_ceiling :: "(real \<Rightarrow> real) \<Rightarrow> game \<Rightarrow> game" where
  "updateBall_ceiling rnd s =
     (if rnd (ballY s - real_of_int ballR) \<le> 0 then
        sfxWallBounce (s\<lparr>ballY := real_of_int ballR, ballVY := \<bar>ballVY s\<bar>\<rparr>)
      else s)"

definition paddleBounce :: "(real \<Rightarrow> real) \<Rightarrow> game \<Rightarrow> game" where
  "paddleBounce rnd s =
     (let s1 = s\<lparr>ballY := real_of_int (paddleY - ballR), ballVY := - \<bar>ballVY s\<bar>\<rparr>;
          cx = rnd (paddleX s1 + real_of_int paddleWidth / 2);
          offset = rnd (rnd (ballX s1 - cx) / (real_of_int paddleWidth / 2));
          maxVX = rnd 2.8;
          s2 = s1\<lparr>ballVX := rnd (ballVX s1 + rnd (offset * rnd 0.8))\<rparr>;
          s3 = (if maxVX < ballVX s2 then s2\<lparr>ballVX := maxVX\<rparr> else s2);
          s4 = (if ballVX s3 < - maxVX then s3\<lparr>ballVX := - maxVX\<rparr> else s3);
          acc = rnd 1.04;
          s5 = s4\<lparr>ballVX := rnd (ballVX s4 * acc)\<rparr>;
          s6 = s5\<lparr>ballVY := rnd (ballVY s5 * acc)\<rparr>
      in sfxPaddleHit s6)"

definition losePoint :: "(real \<Rightarrow> real) \<Rightarrow> tick \<Rightarrow> game \<Rightarrow> game" where
  "losePoint rnd i s =
     (let s1 = sfxLosePoint (s\<lparr>score := score s - 1\<rparr>) in
      if score s1 \<le> 0 then
        (captureFinalTimeAndUpdateBest (msCapture i) s1)\<lparr>gameState := STATE_GAMEOVER\<rparr>
      else resetBall rnd (rand i) s1)"

definition updateBall_paddle :: "(real \<Rightarrow> real) \<Rightarrow> tick \<Rightarrow> game \<Rightarrow> game" where
  "updateBall_paddle rnd i s =
     (let baja = (0 < ballVY s) in
      if baja \<and> real_of_int paddleY \<le> rnd (ballY s + real_of_int ballR) then
        (if paddleX s \<le> ballX s \<and> ballX s \<le> rnd (paddleX s + real_of_int paddleWidth)
         then paddleBounce rnd s
         else losePoint rnd i s)
      else s)"

definition updateBall :: "(real \<Rightarrow> real) \<Rightarrow> tick \<Rightarrow> game \<Rightarrow> game" where
  "updateBall rnd i s =
     updateBall_paddle rnd i (updateBall_ceiling rnd (updateBall_sides rnd (updateBall_move rnd s)))"

subsection \<open>The main loop\<close>

text \<open>
  The start screen waits for the right button to be released:
  \<open>while (digitalRead(BTN_RIGHT) == LOW) delay(10);\<close>. The samples the loop reads are
  the list \<open>rightSamples\<close>; it leaves at the first sample that is not pressed, and a list
  that ends while the button is still pressed is a wait that has not returned: \<open>None\<close>.
\<close>

fun waitRelease :: "bool list \<Rightarrow> unit option" where
  "waitRelease [] = None"
| "waitRelease (pressed # rest) = (if pressed then waitRelease rest else Some ())"

definition runClock :: "u32 \<Rightarrow> game \<Rightarrow> game" where
  "runClock ms s =
     (if 1000 \<le> ms - lastSecondMs s then
        (let steps = (ms - lastSecondMs s) div 1000 in
         s\<lparr>elapsedSec := elapsedSec s + ucast steps,
           lastSecondMs := lastSecondMs s + steps * 1000\<rparr>)
      else s)"

definition loop_start :: "(real \<Rightarrow> real) \<Rightarrow> tick \<Rightarrow> game \<Rightarrow> game option" where
  "loop_start rnd i s =
     (let s1 = (if BLINK_INTERVAL \<le> now i - lastBlinkMs s
                then s\<lparr>blinkOn := \<not> blinkOn s, lastBlinkMs := now i\<rparr> else s) in
      if btnRight i then
        (let s2 = (if \<not> hasPlayedFirstStartBeep s1
                   then (sfxStartFirst s1)\<lparr>hasPlayedFirstStartBeep := True\<rparr> else s1) in
         case waitRelease (rightSamples i) of
           None \<Rightarrow> None
         | Some _ \<Rightarrow> Some ((resetGame rnd (rand i) (msReset i) s2)\<lparr>gameState := STATE_PLAYING\<rparr>))
      else Some s1)"

definition loop_playing :: "(real \<Rightarrow> real) \<Rightarrow> tick \<Rightarrow> game \<Rightarrow> game" where
  "loop_playing rnd i s =
     updateBall rnd i (handleButtonsPaddle rnd i (updateSpeedMode (runClock (now i) s)))"

definition loop_gameover :: "tick \<Rightarrow> game \<Rightarrow> game" where
  "loop_gameover i s =
     (case bothButtonsHeld 800 i s of
        (held, s1) \<Rightarrow>
          if held then s1\<lparr>gameState := STATE_START, blinkOn := True, lastBlinkMs := msBlink i\<rparr>
          else s1)"

definition loop :: "(real \<Rightarrow> real) \<Rightarrow> tick \<Rightarrow> game \<Rightarrow> game option" where
  "loop rnd i s =
     (if now i - lastFrameMs s < FRAME_INTERVAL then Some s
      else
        (let s1 = s\<lparr>lastFrameMs := now i\<rparr> in
         case gameState s1 of
           STATE_START \<Rightarrow> loop_start rnd i s1
         | STATE_PLAYING \<Rightarrow> Some (loop_playing rnd i s1)
         | STATE_GAMEOVER \<Rightarrow> Some (loop_gameover i s1)))"

text \<open>
  The globals as the C++ initialisers leave them, after the sketch's start-up routine
  has loaded the best time from NVS (\<open>best\<close>) and read the clock (\<open>ms\<close>). Globals
  without an initialiser are zero.
\<close>

definition setup_sketch :: "u16 \<Rightarrow> u32 \<Rightarrow> game" where
  "setup_sketch best ms =
     \<lparr>gameState = STATE_START, score = 10, paddleX = 0,
      ballX = 0, ballY = 0, ballVX = 0, ballVY = 0,
      speedMultiplier = 1, fastMode = False, modeStartSec = 0,
      lastFrameMs = 0, runStartMs = 0, lastSecondMs = 0, elapsedSec = 0,
      finalTimeCaptured = False, finalElapsedSec = 0, bestTimeSec = best,
      blinkOn = True, lastBlinkMs = ms, hasPlayedFirstStartBeep = False,
      t0 = 0, sfx = [], nvs = []\<rparr>"

text \<open>The states the sketch can be in: the start-up routine once, then \<open>loop()\<close> for ever.\<close>

inductive reachable :: "(real \<Rightarrow> real) \<Rightarrow> game \<Rightarrow> bool" for rnd :: "real \<Rightarrow> real" where
  reachable_setup: "reachable rnd (setup_sketch best ms)"
| reachable_loop: "reachable rnd s \<Longrightarrow> loop rnd i s = Some s' \<Longrightarrow> reachable rnd s'"

text \<open>A run of \<open>loop()\<close> over a list of ticks, stopping where a tick does not return.\<close>

fun run :: "(real \<Rightarrow> real) \<Rightarrow> tick list \<Rightarrow> game \<Rightarrow> game option" where
  "run rnd [] s = Some s"
| "run rnd (i # rest) s = (case loop rnd i s of None \<Rightarrow> None | Some s' \<Rightarrow> run rnd rest s')"

subsection \<open>Time formatting\<close>

text \<open>
  \<open>formatTimeMMSS(secs, out, n)\<close> writes into the caller's buffer. The buffer is the
  list of its bytes; \<open>snprintf(out, n, ...)\<close> stores at most \<open>n - 1\<close> characters of the
  rendering and then the terminating NUL, and leaves the bytes behind them alone.
  \<open>%02u\<close> prints an unsigned number in decimal, padded with zeros to at least two
  digits.
\<close>

definition digit :: "nat \<Rightarrow> char" where
  "digit d = ''0123456789'' ! d"

fun udec :: "nat \<Rightarrow> string" where
  "udec k = (if k < 10 then [digit k] else udec (k div 10) @ [digit (k mod 10)])"

declare udec.simps [simp del]

definition fmt02u :: "nat \<Rightarrow> string" where
  "fmt02u k = replicate (2 - length (udec k)) (CHR ''0'') @ udec k"

definition snprintf :: "char list \<Rightarrow> nat \<Rightarrow> string \<Rightarrow> char list" where
  "snprintf out n str =
     (if n = 0 then out
      else (let w = take (n - 1) str @ [CHR 0x00] in w @ drop (length w) out))"

definition formatTimeMMSS :: "u16 \<Rightarrow> char list \<Rightarrow> nat \<Rightarrow> char list" where
  "formatTimeMMSS secs out n =
     (let mm = secs div 60; ss = secs mod 60 in
      if 6 \<le> n then snprintf out n (fmt02u (unat mm) @ '':'' @ fmt02u (unat ss))
      else if 0 < n then out[0 := CHR 0x00]
      else out)"

text \<open>The C string a buffer holds: its bytes up to the first NUL.\<close>

definition cstr :: "char list \<Rightarrow> string" where
  "cstr buf = takeWhile (\<lambda>c. c \<noteq> CHR 0x00) buf"

section \<open>Notions used in the statements\<close>

text \<open>
  The state of a PLAYING tick when \<open>updateBall()\<close> arrives at its paddle block: the clock,
  the speed mode, the paddle, the displacement and the wall and ceiling bounces are done.
\<close>

definition beforePaddle :: "(real \<Rightarrow> real) \<Rightarrow> tick \<Rightarrow> game \<Rightarrow> game" where
  "beforePaddle rnd i s =
     updateBall_ceiling rnd (updateBall_sides rnd (updateBall_move rnd
       (handleButtonsPaddle rnd i (updateSpeedMode (runClock (now i) s)))))"

text \<open>
  The three tests of the paddle block (lines 293-295): the ball moves down, its bottom
  edge has reached the paddle line, and its centre is inside the paddle's span. A ball is
  missed when it is at the line and outside the span.
\<close>

definition atPaddleLine :: "(real \<Rightarrow> real) \<Rightarrow> game \<Rightarrow> bool" where
  "atPaddleLine rnd s =
     (0 < ballVY s \<and> real_of_int paddleY \<le> rnd (ballY s + real_of_int ballR))"

definition overPaddle :: "(real \<Rightarrow> real) \<Rightarrow> game \<Rightarrow> bool" where
  "overPaddle rnd s =
     (paddleX s \<le> ballX s \<and> ballX s \<le> rnd (paddleX s + real_of_int paddleWidth))"

definition missed :: "(real \<Rightarrow> real) \<Rightarrow> game \<Rightarrow> bool" where
  "missed rnd s = (atPaddleLine rnd s \<and> \<not> overPaddle rnd s)"

text \<open>The tests of the wall and ceiling blocks (lines 275, 279 and 286).\<close>

definition hitsLeft :: "(real \<Rightarrow> real) \<Rightarrow> game \<Rightarrow> bool" where
  "hitsLeft rnd s = (rnd (ballX s - real_of_int ballR) \<le> 0)"

definition hitsRight :: "(real \<Rightarrow> real) \<Rightarrow> game \<Rightarrow> bool" where
  "hitsRight rnd s = (real_of_int SCREEN_WIDTH \<le> rnd (ballX s + real_of_int ballR))"

definition hitsCeiling :: "(real \<Rightarrow> real) \<Rightarrow> game \<Rightarrow> bool" where
  "hitsCeiling rnd s = (rnd (ballY s - real_of_int ballR) \<le> 0)"

text \<open>
  What holds in every state the sketch reaches: while PLAYING the score is between 1 and
  10 and no final time has been captured; in GAMEOVER it has been.
\<close>

definition game_inv :: "game \<Rightarrow> bool" where
  "game_inv s =
     (case gameState s of
        STATE_START \<Rightarrow> True
      | STATE_PLAYING \<Rightarrow> 1 \<le> score s \<and> score s \<le> 10 \<and> \<not> finalTimeCaptured s
      | STATE_GAMEOVER \<Rightarrow> finalTimeCaptured s)"

text \<open>
  What the statements need of the rounding function where a sign or a size matters: it is
  monotone, and it leaves the multiples of 1/32 up to \<open>2^19\<close> as they are. Round-to-nearest
  of binary32 does both: these numbers have at most 24 significant bits.
\<close>

definition rounds_like_float :: "(real \<Rightarrow> real) \<Rightarrow> bool" where
  "rounds_like_float rnd =
     (mono rnd \<and>
      (\<forall>k::int. \<bar>k\<bar> \<le> 2 ^ 24 \<longrightarrow> rnd (real_of_int k / 32) = real_of_int k / 32))"

text \<open>
  The ball as \<open>resetBall()\<close> leaves it when \<open>random(0, 2)\<close> has returned \<open>r\<close>: at the
  seed position, with the base speed on both axes, downward (the y axis points down the
  screen), to the left when the draw is 0 and to the right otherwise.
\<close>

definition seeded :: "(real \<Rightarrow> real) \<Rightarrow> int \<Rightarrow> game \<Rightarrow> bool" where
  "seeded rnd r s =
     (ballX s = real_of_int SCREEN_WIDTH / 2 \<and> ballY s = rnd (real_of_int SCREEN_HEIGHT / 3) \<and>
      ballVX s = (if r = 0 then - rnd 1.7 else rnd 1.7) \<and> ballVY s = rnd 1.7)"

text \<open>
  The rendering \<open>"%02u:%02u"\<close> of minutes and seconds, that is of \<open>secs / 60\<close> and
  \<open>secs % 60\<close>, as it would be printed with room to spare.
\<close>

definition mmss :: "u16 \<Rightarrow> string" where
  "mmss secs = fmt02u (unat (secs div 60)) @ '':'' @ fmt02u (unat (secs mod 60))"

text \<open>
  One second of a run as the PLAYING branch sees it: the stopwatch goes up by one unit
  (line 477 with \<open>steps = 1\<close>) and the speed mode is brought up to date (line 482).
  \<open>phaseStart k\<close> is the second at which the phase that is current after \<open>k\<close> seconds
  began, when 20 normal seconds and 5 fast seconds alternate from second 0 on.
\<close>

definition secondPasses :: "game \<Rightarrow> game" where
  "secondPasses s = updateSpeedMode (s\<lparr>elapsedSec := elapsedSec s + 1\<rparr>)"

definition phaseStart :: "nat \<Rightarrow> nat" where
  "phaseStart k = k - (if 20 \<le> k mod 25 then k mod 25 - 20 else k mod 25)"

subsection \<open>A game played to the end\<close>

text \<open>
  Concrete inputs: a frame at time \<open>t\<close> with no button pressed, a run of such frames
  17 ms apart, a frame on which the right button is pressed and then released, and a frame
  on which both buttons are down. The lose-point cue blocks for 400 ms, so a final time is
  captured 400 ms after its frame began.
\<close>

definition idle :: "u32 \<Rightarrow> tick" where
  "idle t = \<lparr>now = t, btnLeft = False, btnRight = False, rightSamples = [],
     rand = 0, msReset = t, msCapture = t + 400, msHoldStart = t, msHoldCheck = t,
     msBlink = t\<rparr>"

fun idles :: "u32 \<Rightarrow> nat \<Rightarrow> tick list" where
  "idles t 0 = []"
| "idles t (Suc n) = idle t # idles (t + 17) n"

definition press :: "u32 \<Rightarrow> tick" where
  "press t = (idle t)\<lparr>btnRight := True, rightSamples := [True, False], msReset := t + 100\<rparr>"

definition both :: "u32 \<Rightarrow> tick" where
  "both t = (idle t)\<lparr>btnLeft := True, btnRight := True, msBlink := t + 300\<rparr>"

text \<open>
  With the paddle left alone every ball passes it: the ball needs 21 frames from its seed
  position to the paddle line and is then 35.7 pixels to the side of the centre. After
  the start frame and 209 idle frames the tenth ball is one frame from the line
  (\<open>lastBall\<close>); the frame after that ends the run (\<open>gameOver\<close>). The sketch was started
  with the best time \<open>b\<close> in NVS.

  The game is computed with the identity for \<open>rnd\<close>, that is in exact arithmetic. Every
  comparison it takes has a margin far above the rounding error of binary32, which is
  about \<open>0.00001\<close> at these magnitudes: the ball crosses the paddle line by 0.03 pixels
  and passes more than 20 pixels beside the paddle.
\<close>

definition lastBall :: "u16 \<Rightarrow> game" where
  "lastBall b =
     \<lparr>gameState = STATE_PLAYING, score = 1, paddleX = 52, ballX = 30,
      ballY = 166 / 3, ballVX = - (17 / 10), ballVY = 17 / 10,
      speedMultiplier = 1, fastMode = False, modeStartSec = 0,
      lastFrameMs = 3753, runStartMs = 200, lastSecondMs = 3200, elapsedSec = 3,
      finalTimeCaptured = False, finalElapsedSec = 0, bestTimeSec = b,
      blinkOn = True, lastBlinkMs = 0, hasPlayedFirstStartBeep = True, t0 = 0,
      sfx = [StartFirst, LosePoint, LosePoint, LosePoint, LosePoint, LosePoint, LosePoint,
             LosePoint, LosePoint, LosePoint],
      nvs = []\<rparr>"

definition gameOver :: "u16 \<Rightarrow> game" where
  "gameOver b =
     (let s = (lastBall b)\<lparr>gameState := STATE_GAMEOVER, score := 0, ballX := 283 / 10,
                ballY := 1711 / 30, lastFrameMs := 3770, finalTimeCaptured := True,
                finalElapsedSec := 3, sfx := sfx (lastBall b) @ [LosePoint]\<rparr>
      in if b < 3 then s\<lparr>bestTimeSec := 3, nvs := [3], sfx := sfx s @ [Party]\<rparr> else s)"

text \<open>
  Three more states, for trying single routines: the first ball of that game one frame
  from the paddle line (\<open>firstBall\<close>), a ball about to leave through the upper left
  corner, and a ball coming down on the right half of the paddle. Their coordinates and
  speeds are binary fractions where the arithmetic is to be exact.
\<close>

definition firstBall :: game where
  "firstBall = (lastBall 50)\<lparr>score := 10, lastFrameMs := 540, lastSecondMs := 200,
     elapsedSec := 0, sfx := [StartFirst]\<rparr>"

definition cornerBall :: game where
  "cornerBall = (lastBall 50)\<lparr>ballX := 3 / 2, ballY := 1, ballVX := - 2, ballVY := - 1\<rparr>"

definition paddleBall :: game where
  "paddleBall = (lastBall 50)\<lparr>ballX := 70, ballY := 115 / 2, ballVX := 1, ballVY := 2\<rparr>"

text \<open>
  Two games in a row. After the first game both buttons are held from 5000 ms to 5800 ms,
  which restarts the sketch; one idle frame later the right button starts the second run
  (\<open>secondRun\<close>), which is lost like the first one with no button touched
  (\<open>secondOver\<close>, at 11670 ms).
\<close>

definition secondRun :: game where
  "secondRun =
     \<lparr>gameState = STATE_PLAYING, score = 10, paddleX = 52, ballX = 64,
      ballY = 64 / 3, ballVX = - (17 / 10), ballVY = 17 / 10,
      speedMultiplier = 1, fastMode = False, modeStartSec = 0,
      lastFrameMs = 8000, runStartMs = 8100, lastSecondMs = 8100, elapsedSec = 0,
      finalTimeCaptured = False, finalElapsedSec = 0, bestTimeSec = 50,
      blinkOn = True, lastBlinkMs = 8000, hasPlayedFirstStartBeep = True, t0 = 5000,
      sfx = sfx (gameOver 50), nvs = []\<rparr>"

definition secondOver :: game where
  "secondOver =
     secondRun\<lparr>gameState := STATE_GAMEOVER, score := 0, ballX := 283 / 10,
       ballY := 1711 / 30, lastFrameMs := 11670, lastSecondMs := 11100, elapsedSec := 3,
       finalTimeCaptured := True, finalElapsedSec := 3,
       sfx := sfx (gameOver 50) @ [LosePoint, LosePoint, LosePoint, LosePoint, LosePoint,
                LosePoint, LosePoint, LosePoint, LosePoint, LosePoint]\<rparr>"

definition twoGames :: "tick list" where
  "twoGames =
     press 100 # idles 217 209 @ idle 3770 #
     both 5000 # both 5800 # idle 7000 # press 8000 # idles 8117 210"

text \<open>
  The first game again, with its last frame at 3850 ms instead of 3770 ms: 650 ms after
  the stopwatch's last full second, so that the lose-point cue, which blocks for 400 ms,
  carries the clock over the next one.
\<close>

definition lateOver :: game where
  "lateOver = (gameOver 50)\<lparr>lastFrameMs := 3850, finalElapsedSec := 4\<rparr>"

section \<open>Lemmas: rounding\<close>

lemma rounds_mono: "rounds_like_float rnd \<Longrightarrow> x \<le> y \<Longrightarrow> rnd x \<le> rnd y"
  by (simp add: rounds_like_float_def monoD)

lemma rounds_exact:
  assumes "rounds_like_float rnd"
  shows "rnd 1 = 1" and "rnd (33 / 32) = 33 / 32" and "rnd 127 = 127"
proof -
  have e: "rnd (real_of_int k / 32) = real_of_int k / 32" if "\<bar>k\<bar> \<le> 2 ^ 24" for k
    using assms that by (simp add: rounds_like_float_def)
  from e [of 32] show "rnd 1 = 1" by simp
  from e [of 33] show "rnd (33 / 32) = 33 / 32" by simp
  from e [of 4064] show "rnd 127 = 127" by simp
qed

lemma rounds_identity: "rounds_like_float (\<lambda>x. x)"
  by (simp add: rounds_like_float_def mono_def)

lemma one_wall_at_a_time:
  assumes "rounds_like_float rnd"
  shows "\<not> (hitsLeft rnd s \<and> hitsRight rnd s)"
proof
  assume both: "hitsLeft rnd s \<and> hitsRight rnd s"
  show False
  proof (cases "ballX s + 2 \<le> 127")
    case True
    from rounds_mono [OF assms True] rounds_exact(3) [OF assms]
    have "rnd (ballX s + 2) \<le> 127" by simp
    with both show False by (simp add: hitsRight_def SCREEN_WIDTH_def ballR_def)
  next
    case False
    then have "1 \<le> ballX s - 2" by simp
    from rounds_mono [OF assms this] rounds_exact(1) [OF assms]
    have "1 \<le> rnd (ballX s - 2)" by simp
    with both show False by (simp add: hitsLeft_def ballR_def)
  qed
qed

section \<open>Lemmas: which variables each routine leaves alone\<close>

lemma play_keeps [simp]:
  "gameState (play c s) = gameState s" "score (play c s) = score s"
  "finalTimeCaptured (play c s) = finalTimeCaptured s"
  "finalElapsedSec (play c s) = finalElapsedSec s"
  "bestTimeSec (play c s) = bestTimeSec s" "nvs (play c s) = nvs s"
  "t0 (play c s) = t0 s" "runStartMs (play c s) = runStartMs s"
  "paddleX (play c s) = paddleX s" "sfx (play c s) = sfx s @ [c]"
  "ballX (play c s) = ballX s" "ballY (play c s) = ballY s"
  "ballVX (play c s) = ballVX s" "ballVY (play c s) = ballVY s"
  by (simp_all add: play_def)

lemmas sfx_defs = sfxPaddleHit_def sfxWallBounce_def sfxLosePoint_def sfxStartFirst_def sfxParty_def

lemma runClock_keeps [simp]:
  "gameState (runClock ms s) = gameState s" "score (runClock ms s) = score s"
  "finalTimeCaptured (runClock ms s) = finalTimeCaptured s"
  "finalElapsedSec (runClock ms s) = finalElapsedSec s"
  "bestTimeSec (runClock ms s) = bestTimeSec s" "nvs (runClock ms s) = nvs s"
  "t0 (runClock ms s) = t0 s" "runStartMs (runClock ms s) = runStartMs s"
  "paddleX (runClock ms s) = paddleX s" "sfx (runClock ms s) = sfx s"
  by (simp_all add: runClock_def Let_def)

lemma setSpeedMode_keeps [simp]:
  "gameState (setSpeedMode f s) = gameState s" "score (setSpeedMode f s) = score s"
  "finalTimeCaptured (setSpeedMode f s) = finalTimeCaptured s"
  "finalElapsedSec (setSpeedMode f s) = finalElapsedSec s"
  "bestTimeSec (setSpeedMode f s) = bestTimeSec s" "nvs (setSpeedMode f s) = nvs s"
  "t0 (setSpeedMode f s) = t0 s" "runStartMs (setSpeedMode f s) = runStartMs s"
  "paddleX (setSpeedMode f s) = paddleX s" "sfx (setSpeedMode f s) = sfx s"
  by (simp_all add: setSpeedMode_def)

lemma updateSpeedMode_keeps [simp]:
  "gameState (updateSpeedMode s) = gameState s" "score (updateSpeedMode s) = score s"
  "finalTimeCaptured (updateSpeedMode s) = finalTimeCaptured s"
  "finalElapsedSec (updateSpeedMode s) = finalElapsedSec s"
  "bestTimeSec (updateSpeedMode s) = bestTimeSec s" "nvs (updateSpeedMode s) = nvs s"
  "t0 (updateSpeedMode s) = t0 s" "runStartMs (updateSpeedMode s) = runStartMs s"
  "paddleX (updateSpeedMode s) = paddleX s" "sfx (updateSpeedMode s) = sfx s"
  by (simp_all add: updateSpeedMode_def Let_def)

lemma handleButtonsPaddle_keeps [simp]:
  "gameState (handleButtonsPaddle rnd i s) = gameState s"
  "score (handleButtonsPaddle rnd i s) = score s"
  "finalTimeCaptured (handleButtonsPaddle rnd i s) = finalTimeCaptured s"
  "finalElapsedSec (handleButtonsPaddle rnd i s) = finalElapsedSec s"
  "bestTimeSec (handleButtonsPaddle rnd i s) = bestTimeSec s"
  "nvs (handleButtonsPaddle rnd i s) = nvs s"
  "t0 (handleButtonsPaddle rnd i s) = t0 s"
  "runStartMs (handleButtonsPaddle rnd i s) = runStartMs s"
  "sfx (handleButtonsPaddle rnd i s) = sfx s"
  by (simp_all add: handleButtonsPaddle_def Let_def)

lemma updateBall_move_keeps [simp]:
  "gameState (updateBall_move rnd s) = gameState s"
  "score (updateBall_move rnd s) = score s"
  "finalTimeCaptured (updateBall_move rnd s) = finalTimeCaptured s"
  "finalElapsedSec (updateBall_move rnd s) = finalElapsedSec s"
  "bestTimeSec (updateBall_move rnd s) = bestTimeSec s"
  "nvs (updateBall_move rnd s) = nvs s"
  "t0 (updateBall_move rnd s) = t0 s"
  "runStartMs (updateBall_move rnd s) = runStartMs s"
  "paddleX (updateBall_move rnd s) = paddleX s"
  "sfx (updateBall_move rnd s) = sfx s"
  by (simp_all add: updateBall_move_def)

lemma updateBall_sides_keeps [simp]:
  "gameState (updateBall_sides rnd s) = gameState s"
  "score (updateBall_sides rnd s) = score s"
  "finalTimeCaptured (updateBall_sides rnd s) = finalTimeCaptured s"
  "finalElapsedSec (updateBall_sides rnd s) = finalElapsedSec s"
  "bestTimeSec (updateBall_sides rnd s) = bestTimeSec s"
  "nvs (updateBall_sides rnd s) = nvs s"
  "t0 (updateBall_sides rnd s) = t0 s"
  "runStartMs (updateBall_sides rnd s) = runStartMs s"
  "paddleX (updateBall_sides rnd s) = paddleX s"
  by (simp_all add: updateBall_sides_def sfxWallBounce_def)

lemma updateBall_ceiling_keeps [simp]:
  "gameState (updateBall_ceiling rnd s) = gameState s"
  "score (updateBall_ceiling rnd s) = score s"
  "finalTimeCaptured (updateBall_ceiling rnd s) = finalTimeCaptured s"
  "finalElapsedSec (updateBall_ceiling rnd s) = finalElapsedSec s"
  "bestTimeSec (updateBall_ceiling rnd s) = bestTimeSec s"
  "nvs (updateBall_ceiling rnd s) = nvs s"
  "t0 (updateBall_ceiling rnd s) = t0 s"
  "runStartMs (updateBall_ceiling rnd s) = runStartMs s"
  "paddleX (updateBall_ceiling rnd s) = paddleX s"
  by (simp_all add: updateBall_ceiling_def sfxWallBounce_def)

lemma paddleBounce_keeps [simp]:
  "gameState (paddleBounce rnd s) = gameState s"
  "score (paddleBounce rnd s) = score s"
  "finalTimeCaptured (paddleBounce rnd s) = finalTimeCaptured s"
  "finalElapsedSec (paddleBounce rnd s) = finalElapsedSec s"
  "bestTimeSec (paddleBounce rnd s) = bestTimeSec s"
  "nvs (paddleBounce rnd s) = nvs s"
  "t0 (paddleBounce rnd s) = t0 s"
  "runStartMs (paddleBounce rnd s) = runStartMs s"
  "paddleX (paddleBounce rnd s) = paddleX s"
  by (simp_all add: paddleBounce_def sfxPaddleHit_def Let_def)

lemma resetBall_keeps [simp]:
  "gameState (resetBall rnd r s) = gameState s"
  "score (resetBall rnd r s) = score s"
  "finalTimeCaptured (resetBall rnd r s) = finalTimeCaptured s"
  "finalElapsedSec (resetBall rnd r s) = finalElapsedSec s"
  "bestTimeSec (resetBall rnd r s) = bestTimeSec s"
  "nvs (resetBall rnd r s) = nvs s"
  "t0 (resetBall rnd r s) = t0 s"
  "runStartMs (resetBall rnd r s) = runStartMs s"
  "paddleX (resetBall rnd r s) = paddleX s"
  "sfx (resetBall rnd r s) = sfx s"
  by (simp_all add: resetBall_def Let_def)

lemma capture_keeps [simp]:
  "gameState (captureFinalTimeAndUpdateBest ms s) = gameState s"
  "score (captureFinalTimeAndUpdateBest ms s) = score s"
  "t0 (captureFinalTimeAndUpdateBest ms s) = t0 s"
  "runStartMs (captureFinalTimeAndUpdateBest ms s) = runStartMs s"
  "paddleX (captureFinalTimeAndUpdateBest ms s) = paddleX s"
  "ballX (captureFinalTimeAndUpdateBest ms s) = ballX s"
  "ballY (captureFinalTimeAndUpdateBest ms s) = ballY s"
  "ballVX (captureFinalTimeAndUpdateBest ms s) = ballVX s"
  "ballVY (captureFinalTimeAndUpdateBest ms s) = ballVY s"
  by (simp_all add: captureFinalTimeAndUpdateBest_def sfxParty_def Let_def)

lemma losePoint_keeps [simp]:
  "t0 (losePoint rnd i s) = t0 s"
  "runStartMs (losePoint rnd i s) = runStartMs s"
  "paddleX (losePoint rnd i s) = paddleX s"
  "score (losePoint rnd i s) = score s - 1"
  by (simp_all add: losePoint_def sfxLosePoint_def Let_def)

lemma updateBall_paddle_keeps [simp]:
  "t0 (updateBall_paddle rnd i s) = t0 s"
  "runStartMs (updateBall_paddle rnd i s) = runStartMs s"
  "paddleX (updateBall_paddle rnd i s) = paddleX s"
  by (simp_all add: updateBall_paddle_def Let_def)

lemma updateBall_keeps [simp]:
  "t0 (updateBall rnd i s) = t0 s"
  "runStartMs (updateBall rnd i s) = runStartMs s"
  "paddleX (updateBall rnd i s) = paddleX s"
  by (simp_all add: updateBall_def)

section \<open>Lemmas: one pass through the loop\<close>

lemma loop_playing_split:
  "loop_playing rnd i s = updateBall_paddle rnd i (beforePaddle rnd i s)"
  by (simp add: loop_playing_def updateBall_def beforePaddle_def)

lemma beforePaddle_keeps [simp]:
  "gameState (beforePaddle rnd i s) = gameState s"
  "score (beforePaddle rnd i s) = score s"
  "finalTimeCaptured (beforePaddle rnd i s) = finalTimeCaptured s"
  "finalElapsedSec (beforePaddle rnd i s) = finalElapsedSec s"
  "bestTimeSec (beforePaddle rnd i s) = bestTimeSec s"
  "nvs (beforePaddle rnd i s) = nvs s"
  "t0 (beforePaddle rnd i s) = t0 s"
  "runStartMs (beforePaddle rnd i s) = runStartMs s"
  by (simp_all add: beforePaddle_def)

lemma updateBall_paddle_cases:
  "updateBall_paddle rnd i s =
     (if missed rnd s then losePoint rnd i s
      else if atPaddleLine rnd s then paddleBounce rnd s else s)"
  by (simp add: updateBall_paddle_def missed_def atPaddleLine_def overPaddle_def Let_def)

lemma losePoint_last:
  "score s \<le> 1 \<Longrightarrow>
   losePoint rnd i s =
     (captureFinalTimeAndUpdateBest (msCapture i) (sfxLosePoint (s\<lparr>score := score s - 1\<rparr>)))
       \<lparr>gameState := STATE_GAMEOVER\<rparr>"
  by (simp add: losePoint_def Let_def sfxLosePoint_def)

lemma losePoint_more:
  "1 < score s \<Longrightarrow>
   losePoint rnd i s = resetBall rnd (rand i) (sfxLosePoint (s\<lparr>score := score s - 1\<rparr>))"
  by (simp add: losePoint_def Let_def sfxLosePoint_def)

lemma capture_fresh:
  "\<not> finalTimeCaptured s \<Longrightarrow>
   finalTimeCaptured (captureFinalTimeAndUpdateBest ms s) \<and>
   finalElapsedSec (captureFinalTimeAndUpdateBest ms s) = ucast ((ms - runStartMs s) div 1000) \<and>
   bestTimeSec (captureFinalTimeAndUpdateBest ms s) =
     (if bestTimeSec s < ucast ((ms - runStartMs s) div 1000)
      then ucast ((ms - runStartMs s) div 1000) else bestTimeSec s) \<and>
   nvs (captureFinalTimeAndUpdateBest ms s) =
     (if bestTimeSec s < ucast ((ms - runStartMs s) div 1000)
      then nvs s @ [ucast ((ms - runStartMs s) div 1000)] else nvs s)"
  by (simp add: captureFinalTimeAndUpdateBest_def Let_def sfxParty_def)

lemma capture_again:
  "finalTimeCaptured s \<Longrightarrow> captureFinalTimeAndUpdateBest ms s = s"
  by (simp add: captureFinalTimeAndUpdateBest_def)

lemma capture_captured [simp]:
  "finalTimeCaptured (captureFinalTimeAndUpdateBest ms s)"
  by (simp add: captureFinalTimeAndUpdateBest_def Let_def sfxParty_def)

lemma game_inv_setup: "game_inv (setup_sketch best ms)"
  by (simp add: game_inv_def setup_sketch_def)

lemma game_inv_playing:
  assumes "game_inv s" "gameState s = STATE_PLAYING"
  shows "game_inv (loop_playing rnd i s)"
proof -
  let ?b = "beforePaddle rnd i s"
  have b: "gameState ?b = STATE_PLAYING" "1 \<le> score ?b" "score ?b \<le> 10" "\<not> finalTimeCaptured ?b"
    using assms by (simp_all add: game_inv_def)
  show ?thesis
  proof (cases "missed rnd ?b")
    case True
    show ?thesis
    proof (cases "score ?b \<le> 1")
      case True
      with \<open>missed rnd ?b\<close> show ?thesis
        by (simp add: loop_playing_split updateBall_paddle_cases losePoint_last game_inv_def)
    next
      case False
      with \<open>missed rnd ?b\<close> b show ?thesis
        by (simp add: loop_playing_split updateBall_paddle_cases losePoint_more game_inv_def
            sfxLosePoint_def)
    qed
  next
    case False
    with b show ?thesis
      by (simp add: loop_playing_split updateBall_paddle_cases game_inv_def)
  qed
qed

lemma resetGame_fields [simp]:
  "score (resetGame rnd r ms s) = 10"
  "finalTimeCaptured (resetGame rnd r ms s) = False"
  "finalElapsedSec (resetGame rnd r ms s) = 0"
  "bestTimeSec (resetGame rnd r ms s) = bestTimeSec s"
  "nvs (resetGame rnd r ms s) = nvs s"
  "t0 (resetGame rnd r ms s) = t0 s"
  "gameState (resetGame rnd r ms s) = gameState s"
  "runStartMs (resetGame rnd r ms s) = ms"
  by (simp_all add: resetGame_def resetGameRuntime_def)

lemma loop_start_cases:
  assumes "loop_start rnd i s = Some s'" "gameState s = STATE_START"
  shows "(gameState s' = STATE_START \<and> score s' = score s \<and>
          finalTimeCaptured s' = finalTimeCaptured s \<and> finalElapsedSec s' = finalElapsedSec s) \<or>
         (gameState s' = STATE_PLAYING \<and> score s' = 10 \<and>
          \<not> finalTimeCaptured s' \<and> finalElapsedSec s' = 0)"
    and "bestTimeSec s' = bestTimeSec s" and "nvs s' = nvs s" and "t0 s' = t0 s"
  using assms
  by (auto simp: loop_start_def Let_def sfxStartFirst_def split: if_splits option.splits)

lemma loop_gameover_fields:
  "score (loop_gameover i s) = score s"
  "finalTimeCaptured (loop_gameover i s) = finalTimeCaptured s"
  "finalElapsedSec (loop_gameover i s) = finalElapsedSec s"
  "bestTimeSec (loop_gameover i s) = bestTimeSec s"
  "nvs (loop_gameover i s) = nvs s"
  by (simp_all add: loop_gameover_def bothButtonsHeld_def Let_def split: prod.splits)

lemma loop_gameover_state:
  "gameState s = STATE_GAMEOVER \<Longrightarrow>
   gameState (loop_gameover i s) = STATE_GAMEOVER \<or> gameState (loop_gameover i s) = STATE_START"
  by (simp add: loop_gameover_def bothButtonsHeld_def Let_def split: prod.splits)

lemma game_inv_loop:
  assumes "game_inv s" "loop rnd i s = Some s'"
  shows "game_inv s'"
proof (cases "now i - lastFrameMs s < FRAME_INTERVAL")
  case True
  with assms show ?thesis by (simp add: loop_def)
next
  case False
  let ?s1 = "s\<lparr>lastFrameMs := now i\<rparr>"
  have inv1: "game_inv ?s1" using assms(1) by (simp add: game_inv_def split: GameState.splits)
  show ?thesis
  proof (cases "gameState s")
    case STATE_START
    with False assms(2) have "loop_start rnd i ?s1 = Some s'" by (simp add: loop_def)
    from loop_start_cases(1)[OF this] STATE_START show ?thesis
      by (auto simp: game_inv_def)
  next
    case STATE_PLAYING
    with False assms(2) have "s' = loop_playing rnd i ?s1" by (simp add: loop_def)
    with game_inv_playing[OF inv1] STATE_PLAYING show ?thesis by simp
  next
    case STATE_GAMEOVER
    with False assms(2) have s': "s' = loop_gameover i ?s1" by (simp add: loop_def)
    have "gameState ?s1 = STATE_GAMEOVER" using STATE_GAMEOVER by simp
    from loop_gameover_state[OF this, of i] inv1 STATE_GAMEOVER show ?thesis
      by (auto simp: s' game_inv_def loop_gameover_fields)
  qed
qed

lemma reachable_inv: "reachable rnd s \<Longrightarrow> game_inv s"
  by (induction rule: reachable.induct) (auto intro: game_inv_setup game_inv_loop)

lemma reachable_run:
  "reachable rnd s \<Longrightarrow> run rnd ts s = Some s' \<Longrightarrow> reachable rnd s'"
proof (induction ts arbitrary: s)
  case Nil
  then show ?case by simp
next
  case (Cons i ts)
  then show ?case
    by (auto split: option.splits intro: reachable_loop)
qed

lemma loop_cases:
  assumes "loop rnd i s = Some s'"
  obtains (wait) "now i - lastFrameMs s < FRAME_INTERVAL" "s' = s"
  | (start) "gameState s = STATE_START" "loop_start rnd i (s\<lparr>lastFrameMs := now i\<rparr>) = Some s'"
  | (playing) "gameState s = STATE_PLAYING" "s' = loop_playing rnd i (s\<lparr>lastFrameMs := now i\<rparr>)"
  | (gameover) "gameState s = STATE_GAMEOVER" "s' = loop_gameover i (s\<lparr>lastFrameMs := now i\<rparr>)"
proof (cases "now i - lastFrameMs s < FRAME_INTERVAL")
  case True
  with assms have "s' = s" by (simp add: loop_def)
  with True show thesis by (rule wait)
next
  case False
  show thesis
  proof (cases "gameState s")
    case STATE_START
    with False assms have "loop_start rnd i (s\<lparr>lastFrameMs := now i\<rparr>) = Some s'"
      by (simp add: loop_def)
    with STATE_START show thesis by (rule start)
  next
    case STATE_PLAYING
    with False assms have "s' = loop_playing rnd i (s\<lparr>lastFrameMs := now i\<rparr>)"
      by (simp add: loop_def)
    with STATE_PLAYING show thesis by (rule playing)
  next
    case STATE_GAMEOVER
    with False assms have "s' = loop_gameover i (s\<lparr>lastFrameMs := now i\<rparr>)"
      by (simp add: loop_def)
    with STATE_GAMEOVER show thesis by (rule gameover)
  qed
qed

lemma loop_playing_score:
  assumes "1 \<le> score s"
  shows "score (loop_playing rnd i s) =
           (if missed rnd (beforePaddle rnd i s) then score s - 1 else score s)"
    and "gameState s = STATE_PLAYING \<Longrightarrow>
         gameState (loop_playing rnd i s) =
           (if score (loop_playing rnd i s) = 0 then STATE_GAMEOVER else STATE_PLAYING)"
proof -
  let ?b = "beforePaddle rnd i s"
  show "score (loop_playing rnd i s) = (if missed rnd ?b then score s - 1 else score s)"
    by (simp add: loop_playing_split updateBall_paddle_cases)
  assume "gameState s = STATE_PLAYING"
  with assms show "gameState (loop_playing rnd i s) =
           (if score (loop_playing rnd i s) = 0 then STATE_GAMEOVER else STATE_PLAYING)"
    by (cases "score s \<le> 1")
      (auto simp: loop_playing_split updateBall_paddle_cases losePoint_last losePoint_more
        sfxLosePoint_def)
qed

lemma loop_playing_end:
  assumes "missed rnd (beforePaddle rnd i s)" "score s \<le> 1" "\<not> finalTimeCaptured s"
  shows "gameState (loop_playing rnd i s) = STATE_GAMEOVER"
    and "finalTimeCaptured (loop_playing rnd i s)"
    and "finalElapsedSec (loop_playing rnd i s) = ucast ((msCapture i - runStartMs s) div 1000)"
    and "bestTimeSec (loop_playing rnd i s) =
           (if bestTimeSec s < ucast ((msCapture i - runStartMs s) div 1000)
            then ucast ((msCapture i - runStartMs s) div 1000) else bestTimeSec s)"
    and "nvs (loop_playing rnd i s) =
           (if bestTimeSec s < ucast ((msCapture i - runStartMs s) div 1000)
            then nvs s @ [ucast ((msCapture i - runStartMs s) div 1000)] else nvs s)"
proof -
  let ?b = "beforePaddle rnd i s"
  let ?l = "sfxLosePoint (?b\<lparr>score := score ?b - 1\<rparr>)"
  have eq: "loop_playing rnd i s =
      (captureFinalTimeAndUpdateBest (msCapture i) ?l)\<lparr>gameState := STATE_GAMEOVER\<rparr>"
    using assms(1,2) by (simp add: loop_playing_split updateBall_paddle_cases losePoint_last)
  have fresh: "\<not> finalTimeCaptured ?l" using assms(3) by (simp add: sfxLosePoint_def)
  have l: "runStartMs ?l = runStartMs s" "bestTimeSec ?l = bestTimeSec s" "nvs ?l = nvs s"
    by (simp_all add: sfxLosePoint_def)
  note c = capture_fresh [OF fresh, of "msCapture i", unfolded l]
  show "gameState (loop_playing rnd i s) = STATE_GAMEOVER" by (simp add: eq)
  show "finalTimeCaptured (loop_playing rnd i s)" by (simp add: eq)
  show "finalElapsedSec (loop_playing rnd i s) = ucast ((msCapture i - runStartMs s) div 1000)"
    using c by (simp add: eq)
  show "bestTimeSec (loop_playing rnd i s) =
           (if bestTimeSec s < ucast ((msCapture i - runStartMs s) div 1000)
            then ucast ((msCapture i - runStartMs s) div 1000) else bestTimeSec s)"
    using c by (simp add: eq)
  show "nvs (loop_playing rnd i s) =
           (if bestTimeSec s < ucast ((msCapture i - runStartMs s) div 1000)
            then nvs s @ [ucast ((msCapture i - runStartMs s) div 1000)] else nvs s)"
    using c by (simp add: eq)
qed

lemma loop_playing_on:
  assumes "\<not> (missed rnd (beforePaddle rnd i s) \<and> score s \<le> 1)"
  shows "gameState (loop_playing rnd i s) = gameState s"
    and "finalTimeCaptured (loop_playing rnd i s) = finalTimeCaptured s"
    and "finalElapsedSec (loop_playing rnd i s) = finalElapsedSec s"
    and "bestTimeSec (loop_playing rnd i s) = bestTimeSec s"
    and "nvs (loop_playing rnd i s) = nvs s"
proof -
  let ?b = "beforePaddle rnd i s"
  have "gameState (loop_playing rnd i s) = gameState s \<and>
        finalTimeCaptured (loop_playing rnd i s) = finalTimeCaptured s \<and>
        finalElapsedSec (loop_playing rnd i s) = finalElapsedSec s \<and>
        bestTimeSec (loop_playing rnd i s) = bestTimeSec s \<and>
        nvs (loop_playing rnd i s) = nvs s"
  proof (cases "missed rnd ?b")
    case True
    with assms have "1 < score ?b" by simp
    then have "loop_playing rnd i s =
        resetBall rnd (rand i) (sfxLosePoint (?b\<lparr>score := score ?b - 1\<rparr>))"
      using True by (simp add: loop_playing_split updateBall_paddle_cases losePoint_more)
    then show ?thesis by (simp add: sfxLosePoint_def)
  next
    case False
    then show ?thesis by (simp add: loop_playing_split updateBall_paddle_cases)
  qed
  then show "gameState (loop_playing rnd i s) = gameState s"
    and "finalTimeCaptured (loop_playing rnd i s) = finalTimeCaptured s"
    and "finalElapsedSec (loop_playing rnd i s) = finalElapsedSec s"
    and "bestTimeSec (loop_playing rnd i s) = bestTimeSec s"
    and "nvs (loop_playing rnd i s) = nvs s"
    by simp_all
qed

lemma unat_seconds:
  fixes d :: u32
  assumes "unat d div 1000 < 65536"
  shows "unat (ucast (d div 1000) :: u16) = unat d div 1000"
proof -
  have "unat (ucast (d div 1000) :: u16) = take_bit 16 (unat (d div 1000))"
    by (simp add: unsigned_ucast_eq)
  also have "unat (d div 1000) = unat d div 1000"
    by (simp add: unat_div)
  also have "take_bit 16 (unat d div 1000) = unat d div 1000"
    using assms by (intro take_bit_nat_eq_self) simp
  finally show ?thesis .
qed

lemma updateBall_paddle_sfx:
  "\<exists>more. sfx (updateBall_paddle rnd i s) = sfx s @ more"
  by (simp add: updateBall_paddle_def losePoint_def paddleBounce_def resetBall_def
      captureFinalTimeAndUpdateBest_def sfx_defs play_def Let_def)

lemma seeded_resetBall: "seeded rnd r (resetBall rnd r s)"
  by (simp add: seeded_def resetBall_def Let_def)

lemma seeded_resetGame: "seeded rnd r ((resetGame rnd r ms s)\<lparr>gameState := g\<rparr>)"
  by (simp add: seeded_def resetGame_def resetGameRuntime_def setSpeedMode_def resetBall_def
      Let_def)

lemma loop_start_seeded:
  assumes "loop_start rnd i s = Some s'" "gameState s = STATE_START"
    "gameState s' = STATE_PLAYING"
  shows "seeded rnd (rand i) s'"
  using assms
  by (auto simp: loop_start_def Let_def sfxStartFirst_def seeded_resetGame
      split: if_splits option.splits)

section \<open>Lemmas: the time formatter\<close>

lemma digit_not_NUL: "d < 10 \<Longrightarrow> digit d \<noteq> CHR 0x00"
proof -
  assume "d < 10"
  then have "''0123456789'' ! d \<in> set ''0123456789''"
    by (intro nth_mem) simp
  then show ?thesis unfolding digit_def by auto
qed

lemma udec_no_NUL: "CHR 0x00 \<notin> set (udec k)"
proof (induction k rule: udec.induct)
  case (1 k)
  show ?case
  proof (cases "k < 10")
    case True
    from digit_not_NUL [OF this] True have "CHR 0x00 \<notin> set [digit k]" by auto
    with True show ?thesis by (subst udec.simps) simp
  next
    case False
    have "k mod 10 < 10" by simp
    from digit_not_NUL [OF this] 1 [OF False]
    have "CHR 0x00 \<notin> set (udec (k div 10) @ [digit (k mod 10)])" by auto
    with False show ?thesis by (subst udec.simps) simp
  qed
qed

lemma length_udec_1: "k < 10 \<Longrightarrow> length (udec k) = 1"
  by (subst udec.simps) simp

lemma length_udec_2: "10 \<le> k \<Longrightarrow> k < 100 \<Longrightarrow> length (udec k) = 2"
  by (subst udec.simps) (simp add: length_udec_1)

lemma length_udec_3: "100 \<le> k \<Longrightarrow> k < 1000 \<Longrightarrow> length (udec k) = 3"
  by (subst udec.simps) (simp add: length_udec_2)

lemma length_udec_4: "1000 \<le> k \<Longrightarrow> k < 10000 \<Longrightarrow> length (udec k) = 4"
  by (subst udec.simps) (simp add: length_udec_3)

lemma length_fmt02u:
  "k < 100 \<Longrightarrow> length (fmt02u k) = 2"
  "k < 10000 \<Longrightarrow> length (fmt02u k) \<le> 4"
proof -
  show "length (fmt02u k) = 2" if "k < 100"
    using that length_udec_1 [of k] length_udec_2 [of k]
    by (cases "k < 10") (simp_all add: fmt02u_def)
  show "length (fmt02u k) \<le> 4" if "k < 10000"
    using that length_udec_1 [of k] length_udec_2 [of k] length_udec_3 [of k] length_udec_4 [of k]
    by (cases "k < 10"; cases "k < 100"; cases "k < 1000") (simp_all add: fmt02u_def)
qed

lemma fmt02u_no_NUL: "CHR 0x00 \<notin> set (fmt02u k)"
  by (auto simp: fmt02u_def udec_no_NUL)

lemma mmss_no_NUL: "CHR 0x00 \<notin> set (mmss secs)"
  by (simp add: mmss_def fmt02u_no_NUL)

lemma unat_minutes: "unat (secs div 60 :: u16) < 10000" "unat (secs mod 60 :: u16) < 60"
proof -
  have "unat secs < 65536" using unsigned_less [of secs] by simp
  then show "unat (secs div 60) < 10000" by (simp add: unat_div)
  show "unat (secs mod 60) < 60" by (simp add: unat_mod)
qed

lemma length_mmss: "length (mmss secs) \<le> 7"
  using length_fmt02u(2) [OF unat_minutes(1), of secs] unat_minutes(2) [of secs]
  by (simp add: mmss_def length_fmt02u(1))

lemma length_mmss_short: "secs < 6000 \<Longrightarrow> length (mmss secs) = 5"
proof -
  assume "secs < 6000"
  then have "unat secs < 6000" by (simp add: word_less_nat_alt)
  then have "unat (secs div 60) < 100" by (simp add: unat_div)
  with unat_minutes(2) [of secs] show ?thesis
    by (simp add: mmss_def length_fmt02u(1))
qed

lemma cstr_snprintf:
  assumes "CHR 0x00 \<notin> set str" "0 < n"
  shows "cstr (snprintf out n str) = take (n - 1) str"
proof -
  have "CHR 0x00 \<notin> set (take (n - 1) str)"
    using assms(1) by (auto dest: in_set_takeD)
  then have "takeWhile (\<lambda>c. c \<noteq> CHR 0x00) (take (n - 1) str @ CHR 0x00 # rest) = take (n - 1) str"
    for rest
    by (auto simp: takeWhile_tail takeWhile_eq_all_conv)
  with assms(2) show ?thesis
    by (simp add: cstr_def snprintf_def Let_def)
qed

lemma formatTimeMMSS_mmss:
  "6 \<le> n \<Longrightarrow> formatTimeMMSS secs out n = snprintf out n (mmss secs)"
  by (simp add: formatTimeMMSS_def mmss_def Let_def)

lemma drop_overwrite:
  "length w \<le> n \<Longrightarrow> drop n (w @ drop (length w) out) = drop n out"
  by simp

section \<open>Lemmas: the speed mode\<close>

lemma ucast_diff_ucast:
  "(ucast (ucast a - ucast b :: u32) :: u16) = a - b"
  by transfer (simp add: take_bit_diff min_def)

lemma small_le_of_nat:
  "d < 65536 \<Longrightarrow> ((numeral n :: u16) \<le> of_nat d) = (unat (numeral n :: u16) \<le> d)"
  by (simp add: word_le_nat_alt unat_of_nat)

lemma phaseStart_le: "phaseStart k \<le> k"
  by (simp add: phaseStart_def)

lemma in_phase:
  "Suc k - phaseStart k = Suc (if 20 \<le> k mod 25 then k mod 25 - 20 else k mod 25)"
proof -
  have "k mod 25 \<le> k" by simp
  then show ?thesis by (auto simp: phaseStart_def)
qed

lemma mod25_Suc:
  "Suc k mod 25 = (if k mod 25 = 24 then 0 else Suc (k mod 25))"
  by (simp add: mod_Suc)

lemma phaseStart_Suc:
  "phaseStart (Suc k) =
     (if k mod 25 = 19 \<or> k mod 25 = 24 then Suc k else phaseStart k)"
proof -
  have "k mod 25 \<le> k" by simp
  moreover have "k mod 25 < 25" by simp
  ultimately show ?thesis
    by (auto simp: phaseStart_def mod25_Suc)
qed

lemma updateSpeedMode_in_mode:
  assumes "modeStartSec s = ucast (of_nat p :: u16)" "elapsedSec s = of_nat e"
    "p \<le> e" "e - p < 65536"
  shows "updateSpeedMode s =
     (if fastMode s then (if 5 \<le> e - p then setSpeedMode False s else s)
      else (if 20 \<le> e - p then setSpeedMode True s else s))"
proof -
  have "(ucast (ucast (elapsedSec s) - modeStartSec s) :: u16) = of_nat (e - p)"
    using assms(1-3) by (simp add: ucast_diff_ucast of_nat_diff)
  with assms(4) show ?thesis
    by (simp add: updateSpeedMode_def Let_def FAST_SEC_def SLOW_SEC_def small_le_of_nat)
qed

lemma speed_cycle_state:
  "elapsedSec ((secondPasses ^^ k) (resetGameRuntime ms s)) = of_nat k \<and>
   fastMode ((secondPasses ^^ k) (resetGameRuntime ms s)) = (20 \<le> k mod 25) \<and>
   speedMultiplier ((secondPasses ^^ k) (resetGameRuntime ms s)) =
     (if 20 \<le> k mod 25 then 2 else 1) \<and>
   modeStartSec ((secondPasses ^^ k) (resetGameRuntime ms s)) =
     ucast (of_nat (phaseStart k) :: u16)"
proof (induction k)
  case 0
  show ?case
    by (simp add: resetGameRuntime_def setSpeedMode_def phaseStart_def)
next
  case (Suc k)
  let ?t = "(secondPasses ^^ k) (resetGameRuntime ms s)"
  let ?u = "?t\<lparr>elapsedSec := elapsedSec ?t + 1\<rparr>"
  from Suc have e: "elapsedSec ?u = of_nat (Suc k)"
    and f: "fastMode ?u = (20 \<le> k mod 25)"
    and v: "speedMultiplier ?u = (if 20 \<le> k mod 25 then 2 else 1)"
    and m: "modeStartSec ?u = ucast (of_nat (phaseStart k) :: u16)"
    by simp_all
  have le: "phaseStart k \<le> Suc k" using phaseStart_le [of k] by simp
  have "k mod 25 < 25" by simp
  then have small: "Suc k - phaseStart k < 65536"
    unfolding in_phase by (cases "20 \<le> k mod 25") simp_all
  have step: "(secondPasses ^^ Suc k) (resetGameRuntime ms s) = updateSpeedMode ?u"
    by (simp add: secondPasses_def)
  note upd = updateSpeedMode_in_mode [OF m e le small]
  show ?case
  proof (cases "20 \<le> k mod 25")
    case True
    with \<open>k mod 25 < 25\<close> e f v m show ?thesis
      unfolding step upd
      by (auto simp: in_phase mod25_Suc phaseStart_Suc setSpeedMode_def add.commute)
  next
    case False
    with e f v m show ?thesis
      unfolding step upd
      by (auto simp: in_phase mod25_Suc phaseStart_Suc setSpeedMode_def add.commute)
  qed
qed

lemma updateSpeedMode_twice:
  "updateSpeedMode (updateSpeedMode s) = updateSpeedMode s"
proof -
  have z: "(ucast (ucast (elapsedSec s) - (ucast (elapsedSec s) :: u32)) :: u16) = 0"
    by simp
  show ?thesis
    by (simp add: updateSpeedMode_def setSpeedMode_def Let_def z FAST_SEC_def SLOW_SEC_def)
qed

section \<open>Lemmas: the concrete game\<close>

lemmas model_defs = loop_def loop_start_def loop_playing_def loop_gameover_def
  updateBall_def updateBall_move_def updateBall_sides_def updateBall_ceiling_def
  updateBall_paddle_def paddleBounce_def losePoint_def captureFinalTimeAndUpdateBest_def
  handleButtonsPaddle_def updateSpeedMode_def setSpeedMode_def runClock_def
  resetGame_def resetGameRuntime_def resetBall_def bothButtonsHeld_def
  sfxPaddleHit_def sfxWallBounce_def sfxLosePoint_def sfxStartFirst_def sfxParty_def play_def
  SCREEN_WIDTH_def SCREEN_HEIGHT_def paddleWidth_def paddleHeight_def paddleY_def
  paddleSpeed_def ballR_def SLOW_SEC_def FAST_SEC_def FPS_def FRAME_INTERVAL_def
  BLINK_INTERVAL_def Let_def word_le_def word_less_def

lemmas tick_defs = idle_def press_def both_def

lemma idles_numeral:
  "idles t (numeral k) = idle t # idles (t + 17) (pred_numeral k)"
  by (simp add: numeral_eq_Suc)

lemma idles_1: "idles t (Suc 0) = [idle t]"
  by simp

lemma first_game:
  "run (\<lambda>x. x) (press 100 # idles 217 209) (setup_sketch b 0) = Some (lastBall b)"
  by (simp add: model_defs tick_defs setup_sketch_def lastBall_def idles_numeral idles_1
      del: idles.simps)

lemma first_ball:
  "run (\<lambda>x. x) (press 100 # idles 217 20) (setup_sketch 50 0) = Some firstBall"
  by (simp add: model_defs tick_defs setup_sketch_def firstBall_def lastBall_def
      idles_numeral idles_1 del: idles.simps)

lemma reachable_lastBall: "reachable (\<lambda>x. x) (lastBall b)"
  by (rule reachable_run [OF reachable_setup first_game])

lemma last_frame:
  "loop (\<lambda>x. x) (idle 3770) (lastBall b) = Some (gameOver b)"
  by (simp add: model_defs tick_defs lastBall_def gameOver_def)

lemma run_append:
  "run rnd (xs @ ys) s = (case run rnd xs s of None \<Rightarrow> None | Some s' \<Rightarrow> run rnd ys s')"
  by (induction xs arbitrary: s) (auto split: option.splits)

lemma hold_and_restart:
  "run (\<lambda>x. x) [both 5000, both 5800, idle 7000, press 8000] (gameOver 50) = Some secondRun"
  by (simp add: model_defs tick_defs gameOver_def lastBall_def secondRun_def)

lemma second_game:
  "run (\<lambda>x. x) (idles 8117 210) secondRun = Some secondOver"
  by (simp add: model_defs tick_defs secondRun_def secondOver_def gameOver_def lastBall_def
      idles_numeral idles_1 del: idles.simps)

lemma two_games: "run (\<lambda>x. x) twoGames (setup_sketch 50 0) = Some secondOver"
proof -
  have "run (\<lambda>x. x) (idle 3770 # both 5000 # both 5800 # idle 7000 # press 8000 #
          idles 8117 210) (lastBall 50) = Some secondOver"
    using last_frame [of 50] run_append [of "\<lambda>x. x" "[both 5000, both 5800, idle 7000, press 8000]"
        "idles 8117 210" "gameOver 50"] hold_and_restart second_game
    by simp
  with first_game [of 50]
    run_append [of "\<lambda>x. x" "press 100 # idles 217 209" _ "setup_sketch 50 0"]
  show ?thesis
    by (simp add: twoGames_def del: idles.simps)
qed

lemma hold_timer:
  "\<not> (btnLeft i \<and> btnRight i) \<Longrightarrow>
     gameState (loop_gameover i s) = gameState s \<and> t0 (loop_gameover i s) = 0"
  "btnLeft i \<and> btnRight i \<Longrightarrow> t0 s \<noteq> 0 \<Longrightarrow> gameState s = STATE_GAMEOVER \<Longrightarrow>
     t0 (loop_gameover i s) = t0 s \<and>
     (gameState (loop_gameover i s) = STATE_START) = (800 \<le> msHoldCheck i - t0 s)"
  by (auto simp: loop_gameover_def bothButtonsHeld_def Let_def)

section \<open>Properties\<close>

text \<open>
  C1. During PLAYING the score never goes up and is never negative. A run starts from 10
  (\<open>resetGame\<close>); a frame lowers the score by exactly one when the ball is missed and
  leaves it alone otherwise; and the frame that brings it to 0 is the frame that moves the
  sketch to GAMEOVER: after a PLAYING frame the state is GAMEOVER exactly when the score
  is 0. Once in GAMEOVER the score stays and the sketch does not go back to PLAYING
  without passing START. It holds in every state the sketch can reach.
\<close>

theorem score_counts_down:
  assumes "reachable rnd s" and "loop rnd i s = Some s'"
  shows "score (resetGame rnd r ms t) = 10 \<and>
         (gameState s = STATE_PLAYING \<longrightarrow>
            0 \<le> score s' \<and> score s' \<le> score s \<and> score s - 1 \<le> score s' \<and>
            gameState s' = (if score s' = 0 then STATE_GAMEOVER else STATE_PLAYING) \<and>
            (FRAME_INTERVAL \<le> now i - lastFrameMs s \<longrightarrow>
               score s' =
                 (if missed rnd (beforePaddle rnd i (s\<lparr>lastFrameMs := now i\<rparr>))
                  then score s - 1 else score s))) \<and>
         (gameState s = STATE_GAMEOVER \<longrightarrow>
            score s' = score s \<and> gameState s' \<noteq> STATE_PLAYING)"
proof -
  have inv: "game_inv s" by (rule reachable_inv [OF assms(1)])
  have playing: ?thesis if st: "gameState s = STATE_PLAYING"
  proof (cases "now i - lastFrameMs s < FRAME_INTERVAL")
    case True
    with assms(2) have "s' = s" by (simp add: loop_def)
    with inv st True show ?thesis by (auto simp: game_inv_def)
  next
    case False
    let ?s1 = "s\<lparr>lastFrameMs := now i\<rparr>"
    from False st assms(2) have s': "s' = loop_playing rnd i ?s1" by (simp add: loop_def)
    from inv st have sc: "1 \<le> score ?s1" and st1: "gameState ?s1 = STATE_PLAYING"
      by (simp_all add: game_inv_def)
    from loop_playing_score(1) [OF sc, of rnd i] loop_playing_score(2) [OF sc st1, of rnd i]
      sc st False
    show ?thesis by (auto simp: s')
  qed
  have over: ?thesis if st: "gameState s = STATE_GAMEOVER"
  proof (cases "now i - lastFrameMs s < FRAME_INTERVAL")
    case True
    with assms(2) have "s' = s" by (simp add: loop_def)
    with st show ?thesis by simp
  next
    case False
    let ?s1 = "s\<lparr>lastFrameMs := now i\<rparr>"
    from False st assms(2) have s': "s' = loop_gameover i ?s1" by (simp add: loop_def)
    have "gameState ?s1 = STATE_GAMEOVER" using st by simp
    from loop_gameover_state [OF this, of i] st show ?thesis
      by (auto simp: s' loop_gameover_fields)
  qed
  show ?thesis
    by (cases "gameState s") (use playing over in auto)
qed

theorem score_counts_down_witness:
  "reachable (\<lambda>x. x) (lastBall 50) \<and>
   loop (\<lambda>x. x) (idle 3770) (lastBall 50) = Some (gameOver 50) \<and>
   gameState (lastBall 50) = STATE_PLAYING \<and> score (lastBall 50) = 1 \<and>
   FRAME_INTERVAL \<le> now (idle 3770) - lastFrameMs (lastBall 50) \<and>
   missed (\<lambda>x. x) (beforePaddle (\<lambda>x. x) (idle 3770) ((lastBall 50)\<lparr>lastFrameMs := now (idle 3770)\<rparr>)) \<and>
   score (gameOver 50) = 0 \<and> gameState (gameOver 50) = STATE_GAMEOVER"
  using score_counts_down [OF reachable_lastBall [of 50] last_frame [of 50],
      where r = 0 and ms = 0 and t = "lastBall 50"]
    reachable_lastBall [of 50] last_frame [of 50]
  by (simp add: lastBall_def gameOver_def idle_def FRAME_INTERVAL_def FPS_def word_le_def
      split: if_splits)

text \<open>
  C2. The stored best time never decreases. It changes only on the frame that ends a run,
  and there only when the final time just captured is strictly greater than the stored
  value: then the best time becomes the final time and exactly one value, the new best
  time, is written to NVS. On every other frame, and at the end of a run whose final time
  is equal or lower, the best time is unchanged and nothing is written. A second call of
  the capture routine does nothing, so there is at most one update per run.
\<close>

theorem best_time_only_grows:
  assumes "reachable rnd s" and "loop rnd i s = Some s'"
  shows "bestTimeSec s \<le> bestTimeSec s' \<and>
         (if gameState s = STATE_PLAYING \<and> gameState s' = STATE_GAMEOVER \<and>
             bestTimeSec s < finalElapsedSec s'
          then bestTimeSec s' = finalElapsedSec s' \<and> nvs s' = nvs s @ [finalElapsedSec s']
          else bestTimeSec s' = bestTimeSec s \<and> nvs s' = nvs s) \<and>
         captureFinalTimeAndUpdateBest later (captureFinalTimeAndUpdateBest first t) =
           captureFinalTimeAndUpdateBest first t"
proof -
  have inv: "game_inv s" by (rule reachable_inv [OF assms(1)])
  have again: "captureFinalTimeAndUpdateBest later (captureFinalTimeAndUpdateBest first t) =
           captureFinalTimeAndUpdateBest first t"
    by (rule capture_again) simp
  from assms(2) have
    "bestTimeSec s \<le> bestTimeSec s' \<and>
         (if gameState s = STATE_PLAYING \<and> gameState s' = STATE_GAMEOVER \<and>
             bestTimeSec s < finalElapsedSec s'
          then bestTimeSec s' = finalElapsedSec s' \<and> nvs s' = nvs s @ [finalElapsedSec s']
          else bestTimeSec s' = bestTimeSec s \<and> nvs s' = nvs s)"
  proof (cases rule: loop_cases)
    case wait
    with inv show ?thesis by (auto simp: game_inv_def)
  next
    case start
    from loop_start_cases [OF start(2)] start(1) show ?thesis by auto
  next
    case playing
    let ?s1 = "s\<lparr>lastFrameMs := now i\<rparr>"
    from inv playing(1) have fresh: "\<not> finalTimeCaptured ?s1" and sc: "1 \<le> score ?s1"
      by (simp_all add: game_inv_def)
    show ?thesis
    proof (cases "missed rnd (beforePaddle rnd i ?s1) \<and> score ?s1 \<le> 1")
      case True
      then have m: "missed rnd (beforePaddle rnd i ?s1)" and l: "score ?s1 \<le> 1" by simp_all
      from loop_playing_end [OF m l fresh] playing show ?thesis
        by (auto simp: word_le_less_eq)
    next
      case False
      from loop_playing_on [OF False] playing show ?thesis by simp
    qed
  next
    case gameover
    then show ?thesis by (simp add: loop_gameover_fields)
  qed
  with again show ?thesis by simp
qed

theorem best_time_only_grows_witness:
  "reachable (\<lambda>x. x) (lastBall 2) \<and>
   loop (\<lambda>x. x) (idle 3770) (lastBall 2) = Some (gameOver 2) \<and>
   gameState (lastBall 2) = STATE_PLAYING \<and> gameState (gameOver 2) = STATE_GAMEOVER \<and>
   bestTimeSec (lastBall 2) = 2 \<and> finalElapsedSec (gameOver 2) = 3 \<and>
   bestTimeSec (gameOver 2) = 3 \<and> nvs (lastBall 2) = [] \<and> nvs (gameOver 2) = [3]"
  using best_time_only_grows [OF reachable_lastBall [of 2] last_frame [of 2],
      where first = 0 and later = 0 and t = "lastBall 2"]
    reachable_lastBall [of 2] last_frame [of 2]
  by (simp add: lastBall_def gameOver_def word_less_def split: if_splits)

text \<open>
  C3, as the sketch has it. The claim says that the final time equals the elapsed time at
  the instant of the transition. The elapsed time of a run is the stopwatch \<open>elapsedSec\<close>,
  which the PLAYING branch brings up to date from the clock reading taken at the start of
  the frame. The capture routine does not copy it: it reads the clock again, after the
  lose-point cue has played. On the frame at 3850 ms the stopwatch stands at 3 and the
  final time captured is 4.
\<close>

theorem final_time_captured_once_counterexample:
  "reachable (\<lambda>x. x) (lastBall 50) \<and>
   gameState (lastBall 50) = STATE_PLAYING \<and>
   loop (\<lambda>x. x) (idle 3850) (lastBall 50) = Some lateOver \<and>
   gameState lateOver = STATE_GAMEOVER \<and>
   elapsedSec lateOver = 3 \<and> finalElapsedSec lateOver = 4 \<and>
   finalElapsedSec lateOver \<noteq> elapsedSec lateOver"
proof -
  have "loop (\<lambda>x. x) (idle 3850) (lastBall 50) = Some lateOver"
    by (simp add: model_defs tick_defs lastBall_def gameOver_def lateOver_def)
  with reachable_lastBall [of 50] show ?thesis
    by (simp add: lateOver_def gameOver_def lastBall_def word_less_def)
qed

text \<open>
  C3, amended. The final time is captured on the frame that moves the run to GAMEOVER,
  and only there: it is the whole seconds between the start of the run and a clock
  reading of its own, taken at that instant, as a \<open>uint16_t\<close> (the number itself below
  65536 seconds); it need not be the value of the stopwatch. While the run goes on
  nothing is captured; in GAMEOVER the value is marked as captured and no frame changes
  it; the next run's reset clears it. A second call of the capture routine changes
  nothing.
\<close>

theorem final_time_captured_once:
  assumes "reachable rnd s" and "loop rnd i s = Some s'"
  shows "(gameState s = STATE_PLAYING \<and> gameState s' = STATE_GAMEOVER \<longrightarrow>
            finalTimeCaptured s' \<and>
            finalElapsedSec s' = ucast ((msCapture i - runStartMs s) div 1000) \<and>
            (unat (msCapture i - runStartMs s) div 1000 < 65536 \<longrightarrow>
               unat (finalElapsedSec s') = unat (msCapture i - runStartMs s) div 1000)) \<and>
         (gameState s = STATE_PLAYING \<and> gameState s' \<noteq> STATE_GAMEOVER \<longrightarrow>
            gameState s' = STATE_PLAYING \<and> \<not> finalTimeCaptured s' \<and>
            finalElapsedSec s' = finalElapsedSec s) \<and>
         (gameState s = STATE_GAMEOVER \<longrightarrow>
            finalTimeCaptured s \<and> finalTimeCaptured s' \<and>
            finalElapsedSec s' = finalElapsedSec s) \<and>
         (gameState s = STATE_START \<longrightarrow>
            (if gameState s' = STATE_PLAYING
             then finalElapsedSec s' = 0 \<and> \<not> finalTimeCaptured s'
             else gameState s' = STATE_START \<and> finalElapsedSec s' = finalElapsedSec s \<and>
                  finalTimeCaptured s' = finalTimeCaptured s)) \<and>
         captureFinalTimeAndUpdateBest later (captureFinalTimeAndUpdateBest first t) =
           captureFinalTimeAndUpdateBest first t"
proof -
  have inv: "game_inv s" by (rule reachable_inv [OF assms(1)])
  have again: "captureFinalTimeAndUpdateBest later (captureFinalTimeAndUpdateBest first t) =
           captureFinalTimeAndUpdateBest first t"
    by (rule capture_again) simp
  from assms(2) show ?thesis
  proof (cases rule: loop_cases)
    case wait
    with inv again show ?thesis by (auto simp: game_inv_def)
  next
    case start
    from loop_start_cases(1) [OF start(2)] start(1) again show ?thesis by auto
  next
    case playing
    let ?s1 = "s\<lparr>lastFrameMs := now i\<rparr>"
    from inv playing(1) have fresh: "\<not> finalTimeCaptured ?s1" and sc: "1 \<le> score ?s1"
      by (simp_all add: game_inv_def)
    show ?thesis
    proof (cases "missed rnd (beforePaddle rnd i ?s1) \<and> score ?s1 \<le> 1")
      case True
      then have m: "missed rnd (beforePaddle rnd i ?s1)" and l: "score ?s1 \<le> 1" by simp_all
      from loop_playing_end(1-3) [OF m l fresh] playing again show ?thesis
        by (simp add: unat_seconds)
    next
      case False
      from loop_playing_on(1-3) [OF False] playing fresh again show ?thesis by simp
    qed
  next
    case gameover
    with inv again show ?thesis by (simp add: loop_gameover_fields game_inv_def)
  qed
qed

theorem final_time_captured_once_witness:
  "reachable (\<lambda>x. x) (lastBall 50) \<and>
   loop (\<lambda>x. x) (idle 3770) (lastBall 50) = Some (gameOver 50) \<and>
   gameState (lastBall 50) = STATE_PLAYING \<and> gameState (gameOver 50) = STATE_GAMEOVER \<and>
   unat (msCapture (idle 3770) - runStartMs (lastBall 50)) div 1000 < 65536 \<and>
   finalTimeCaptured (gameOver 50) \<and>
   unat (finalElapsedSec (gameOver 50)) = unat (4170 - 200 :: u32) div 1000"
  using final_time_captured_once [OF reachable_lastBall [of 50] last_frame [of 50],
      where first = 0 and later = 0 and t = "lastBall 50"]
    reachable_lastBall [of 50] last_frame [of 50]
  by (simp add: lastBall_def gameOver_def idle_def word_less_def split: if_splits)

text \<open>
  C4. For a run whose speed phase starts NORMAL at second 0 (\<open>resetGameRuntime\<close>) and
  whose stopwatch advances one unit per update, after \<open>k\<close> seconds the mode is FAST
  exactly when \<open>k mod 25\<close> is 20 or more: FAST from second 20, NORMAL again from second
  25, and so on with period 25, for every \<open>k\<close> (also beyond the wrap of the 16-bit
  stopwatch). The multiplier is 2 in FAST and 1 in NORMAL. The phase-start marker holds
  the second of the last transition: an update that changes the mode sets the marker to
  the current stopwatch value, and an update that keeps the mode changes nothing. Updating
  twice in the same second is the same as updating once.
\<close>

theorem speed_mode_cycle:
  "fastMode ((secondPasses ^^ k) (resetGameRuntime ms s)) = (20 \<le> k mod 25) \<and>
   speedMultiplier ((secondPasses ^^ k) (resetGameRuntime ms s)) =
     (if 20 \<le> k mod 25 then 2 else 1) \<and>
   elapsedSec ((secondPasses ^^ k) (resetGameRuntime ms s)) = of_nat k \<and>
   modeStartSec ((secondPasses ^^ k) (resetGameRuntime ms s)) =
     ucast (of_nat (phaseStart k) :: u16) \<and>
   updateSpeedMode (updateSpeedMode t) = updateSpeedMode t \<and>
   (if fastMode (updateSpeedMode t) = fastMode t then updateSpeedMode t = t
    else modeStartSec (updateSpeedMode t) = ucast (elapsedSec t))"
proof -
  have "if fastMode (updateSpeedMode t) = fastMode t then updateSpeedMode t = t
    else modeStartSec (updateSpeedMode t) = ucast (elapsedSec t)"
    by (simp add: updateSpeedMode_def setSpeedMode_def Let_def)
  with speed_cycle_state [of k ms s] updateSpeedMode_twice [of t] show ?thesis
    by simp
qed

theorem speed_mode_cycle_witness:
  "\<not> fastMode ((secondPasses ^^ 19) (resetGameRuntime 200 (setup_sketch 0 0))) \<and>
   fastMode ((secondPasses ^^ 20) (resetGameRuntime 200 (setup_sketch 0 0))) \<and>
   speedMultiplier ((secondPasses ^^ 20) (resetGameRuntime 200 (setup_sketch 0 0))) = 2 \<and>
   modeStartSec ((secondPasses ^^ 20) (resetGameRuntime 200 (setup_sketch 0 0))) = 20 \<and>
   fastMode ((secondPasses ^^ 24) (resetGameRuntime 200 (setup_sketch 0 0))) \<and>
   \<not> fastMode ((secondPasses ^^ 25) (resetGameRuntime 200 (setup_sketch 0 0))) \<and>
   modeStartSec ((secondPasses ^^ 25) (resetGameRuntime 200 (setup_sketch 0 0))) = 25 \<and>
   fastMode ((secondPasses ^^ 45) (resetGameRuntime 200 (setup_sketch 0 0))) \<and>
   \<not> fastMode ((secondPasses ^^ 50) (resetGameRuntime 200 (setup_sketch 0 0))) \<and>
   fastMode ((secondPasses ^^ 65545) (resetGameRuntime 200 (setup_sketch 0 0))) \<and>
   elapsedSec ((secondPasses ^^ 65545) (resetGameRuntime 200 (setup_sketch 0 0))) = 9"
  using speed_mode_cycle [of 19 200 "setup_sketch 0 0" "setup_sketch 0 0"]
    speed_mode_cycle [of 20 200 "setup_sketch 0 0" "setup_sketch 0 0"]
    speed_mode_cycle [of 24 200 "setup_sketch 0 0" "setup_sketch 0 0"]
    speed_mode_cycle [of 25 200 "setup_sketch 0 0" "setup_sketch 0 0"]
    speed_mode_cycle [of 45 200 "setup_sketch 0 0" "setup_sketch 0 0"]
    speed_mode_cycle [of 50 200 "setup_sketch 0 0" "setup_sketch 0 0"]
    speed_mode_cycle [of 65545 200 "setup_sketch 0 0" "setup_sketch 0 0"]
  by (simp add: phaseStart_def)

text \<open>
  C5. The claim: in GAMEOVER the sketch goes back to START only when both buttons have
  been held together, without a break, for at least 800 ms. The sketch breaks it in the
  second game over of \<open>twoGames\<close>. The hold timer \<open>t0\<close> of \<open>bothButtonsHeld\<close> is cleared
  only by a poll that finds a button released, and it is polled only in GAMEOVER; the
  hold that ended the first game over leaves \<open>t0 = 5000\<close> behind. No button is down
  during the second run; both are down on the frame at 12100 ms, the first poll of the
  second game over, and the sketch restarts on that frame, having measured
  \<open>12100 - 5000\<close> ms.
\<close>

theorem restart_on_first_frame:
  "run (\<lambda>x. x) twoGames (setup_sketch 50 0) = Some secondOver \<and>
   gameState secondOver = STATE_GAMEOVER \<and> t0 secondOver = 5000 \<and>
   list_all (\<lambda>i. \<not> btnLeft i \<and> \<not> btnRight i) (idles 8117 210) \<and>
   btnLeft (both 12100) \<and> btnRight (both 12100) \<and>
   loop (\<lambda>x. x) (both 12100) secondOver =
     Some (secondOver\<lparr>lastFrameMs := 12100, gameState := STATE_START, blinkOn := True,
             lastBlinkMs := 12400\<rparr>)"
proof -
  have "list_all (\<lambda>i. \<not> btnLeft i \<and> \<not> btnRight i) (idles t n)" for t n
    by (induction n arbitrary: t) (simp_all add: idle_def)
  moreover have "loop (\<lambda>x. x) (both 12100) secondOver =
     Some (secondOver\<lparr>lastFrameMs := 12100, gameState := STATE_START, blinkOn := True,
             lastBlinkMs := 12400\<rparr>)"
    by (simp add: model_defs tick_defs secondOver_def secondRun_def gameOver_def lastBall_def)
  moreover have "gameState secondOver = STATE_GAMEOVER" "t0 secondOver = 5000"
    by (simp_all add: secondOver_def secondRun_def)
  ultimately show ?thesis
    using two_games by (simp add: both_def idle_def)
qed

text \<open>
  C6. For every collision of the ball with the left wall, the right wall or the ceiling
  during \<open>updateBall()\<close>, the velocity component of that axis is set to point back into
  the field (its magnitude kept, its sign away from the wall), the position on that axis
  is put exactly on the boundary (the edge of the ball touches the wall: no overshoot is
  left), and one wall-bounce cue is played for the side walls and one for the ceiling.
  Without a collision position and velocity are as the displacement left them. The
  state \<open>b\<close> is the one the paddle block of \<open>updateBall()\<close> then starts from, and the cues
  stay in the log. The right wall is tested in the else-branch of the left wall; with a
  rounding like binary32's the ball cannot be at both walls at once.
\<close>

theorem wall_and_ceiling_bounce:
  assumes "m = updateBall_move rnd s"
    and "b = updateBall_ceiling rnd (updateBall_sides rnd m)"
  shows "(hitsLeft rnd m \<longrightarrow>
            ballX b - real_of_int ballR = 0 \<and> ballVX b = \<bar>ballVX m\<bar> \<and> 0 \<le> ballVX b) \<and>
         (\<not> hitsLeft rnd m \<and> hitsRight rnd m \<longrightarrow>
            ballX b + real_of_int ballR = real_of_int SCREEN_WIDTH \<and>
            ballVX b = - \<bar>ballVX m\<bar> \<and> ballVX b \<le> 0) \<and>
         (\<not> hitsLeft rnd m \<and> \<not> hitsRight rnd m \<longrightarrow>
            ballX b = ballX m \<and> ballVX b = ballVX m) \<and>
         (hitsCeiling rnd m \<longrightarrow>
            ballY b - real_of_int ballR = 0 \<and> ballVY b = \<bar>ballVY m\<bar> \<and> 0 \<le> ballVY b) \<and>
         (\<not> hitsCeiling rnd m \<longrightarrow> ballY b = ballY m \<and> ballVY b = ballVY m) \<and>
         sfx b = sfx s @ (if hitsLeft rnd m \<or> hitsRight rnd m then [WallBounce] else [])
                       @ (if hitsCeiling rnd m then [WallBounce] else []) \<and>
         updateBall rnd i s = updateBall_paddle rnd i b \<and>
         (\<exists>more. sfx (updateBall rnd i s) = sfx b @ more) \<and>
         (rounds_like_float rnd \<longrightarrow> \<not> (hitsLeft rnd m \<and> hitsRight rnd m))"
proof -
  have one: "rounds_like_float rnd \<longrightarrow> \<not> (hitsLeft rnd m \<and> hitsRight rnd m)"
    using one_wall_at_a_time [of rnd m] by blast
  have sides: "ballY (updateBall_sides rnd m) = ballY m" "ballVY (updateBall_sides rnd m) = ballVY m"
    by (simp_all add: updateBall_sides_def sfxWallBounce_def)
  have "sfx m = sfx s" using assms(1) by simp
  then have "sfx b = sfx s @ (if hitsLeft rnd m \<or> hitsRight rnd m then [WallBounce] else [])
                       @ (if hitsCeiling rnd m then [WallBounce] else [])"
    unfolding assms(2)
    by (simp add: updateBall_ceiling_def updateBall_sides_def hitsLeft_def hitsRight_def
        hitsCeiling_def sfxWallBounce_def)
  moreover have "updateBall rnd i s = updateBall_paddle rnd i b"
    by (simp add: updateBall_def assms)
  moreover from this have "\<exists>more. sfx (updateBall rnd i s) = sfx b @ more"
    by (simp add: updateBall_paddle_sfx)
  moreover have "hitsLeft rnd m \<longrightarrow>
            ballX b - real_of_int ballR = 0 \<and> ballVX b = \<bar>ballVX m\<bar> \<and> 0 \<le> ballVX b"
    unfolding assms(2)
    by (simp add: updateBall_ceiling_def updateBall_sides_def hitsLeft_def sfxWallBounce_def)
  moreover have "\<not> hitsLeft rnd m \<and> hitsRight rnd m \<longrightarrow>
            ballX b + real_of_int ballR = real_of_int SCREEN_WIDTH \<and>
            ballVX b = - \<bar>ballVX m\<bar> \<and> ballVX b \<le> 0"
    unfolding assms(2)
    by (simp add: updateBall_ceiling_def updateBall_sides_def hitsLeft_def hitsRight_def
        sfxWallBounce_def)
  moreover have "\<not> hitsLeft rnd m \<and> \<not> hitsRight rnd m \<longrightarrow>
            ballX b = ballX m \<and> ballVX b = ballVX m"
    unfolding assms(2)
    by (simp add: updateBall_ceiling_def updateBall_sides_def hitsLeft_def hitsRight_def
        sfxWallBounce_def)
  moreover have "hitsCeiling rnd m \<longrightarrow>
            ballY b - real_of_int ballR = 0 \<and> ballVY b = \<bar>ballVY m\<bar> \<and> 0 \<le> ballVY b"
    unfolding assms(2)
    by (simp add: updateBall_ceiling_def hitsCeiling_def sfxWallBounce_def sides)
  moreover have "\<not> hitsCeiling rnd m \<longrightarrow> ballY b = ballY m \<and> ballVY b = ballVY m"
    unfolding assms(2)
    by (simp add: updateBall_ceiling_def hitsCeiling_def sides)
  ultimately show ?thesis using one by blast
qed

theorem wall_and_ceiling_bounce_witness:
  "hitsLeft (\<lambda>x. x) (updateBall_move (\<lambda>x. x) cornerBall) \<and>
   hitsCeiling (\<lambda>x. x) (updateBall_move (\<lambda>x. x) cornerBall) \<and>
   ballX (updateBall_move (\<lambda>x. x) cornerBall) = - 1 / 2 \<and>
   ballY (updateBall_move (\<lambda>x. x) cornerBall) = 0 \<and>
   ballX (updateBall_ceiling (\<lambda>x. x) (updateBall_sides (\<lambda>x. x) (updateBall_move (\<lambda>x. x) cornerBall))) = 2 \<and>
   ballVX (updateBall_ceiling (\<lambda>x. x) (updateBall_sides (\<lambda>x. x) (updateBall_move (\<lambda>x. x) cornerBall))) = 2 \<and>
   ballY (updateBall_ceiling (\<lambda>x. x) (updateBall_sides (\<lambda>x. x) (updateBall_move (\<lambda>x. x) cornerBall))) = 2 \<and>
   ballVY (updateBall_ceiling (\<lambda>x. x) (updateBall_sides (\<lambda>x. x) (updateBall_move (\<lambda>x. x) cornerBall))) = 1 \<and>
   sfx (updateBall_ceiling (\<lambda>x. x) (updateBall_sides (\<lambda>x. x) (updateBall_move (\<lambda>x. x) cornerBall))) =
     sfx cornerBall @ [WallBounce, WallBounce] \<and>
   rounds_like_float (\<lambda>x. x) \<and>
   \<not> hitsRight (\<lambda>x. x) (updateBall_move (\<lambda>x. x) cornerBall)"
proof -
  have l: "hitsLeft (\<lambda>x. x) (updateBall_move (\<lambda>x. x) cornerBall)"
    and c: "hitsCeiling (\<lambda>x. x) (updateBall_move (\<lambda>x. x) cornerBall)"
    and m: "ballX (updateBall_move (\<lambda>x. x) cornerBall) = - 1 / 2"
      "ballY (updateBall_move (\<lambda>x. x) cornerBall) = 0"
      "ballVX (updateBall_move (\<lambda>x. x) cornerBall) = - 2"
      "ballVY (updateBall_move (\<lambda>x. x) cornerBall) = - 1"
    by (simp_all add: hitsLeft_def hitsCeiling_def updateBall_move_def cornerBall_def
        lastBall_def ballR_def)
  from wall_and_ceiling_bounce [OF refl refl, of "\<lambda>x. x" cornerBall "idle 3770"] l c m
    rounds_identity
  show ?thesis by (simp add: ballR_def)
qed

text \<open>
  C7. When the ball moves down, its bottom edge has reached the paddle line and its
  centre is within the paddle's span, the paddle block bounces it in this order: the
  vertical velocity is turned upward; the horizontal velocity gets the offset from the
  paddle's centre (as a fraction of half the paddle's width) times the gain 0.8 added and
  is clamped to the range of the maximum 2.8; then both components are multiplied by the
  factor 1.04, which is greater than 1, with no cap after the multiplication; and the
  paddle-hit cue is played. The ball is put on the paddle; score and game state stay.
\<close>

theorem paddle_hit_response:
  assumes "atPaddleLine rnd s" and "overPaddle rnd s"
    and "s' = updateBall_paddle rnd i s"
    and "offset = rnd (rnd (ballX s - rnd (paddleX s + real_of_int paddleWidth / 2))
                        / (real_of_int paddleWidth / 2))"
  shows "ballVY s' = rnd (- \<bar>ballVY s\<bar> * rnd 1.04) \<and> - \<bar>ballVY s\<bar> < 0 \<and>
         ballVX s' =
           rnd (max (- rnd 2.8) (min (rnd 2.8) (rnd (ballVX s + rnd (offset * rnd 0.8))))
                * rnd 1.04) \<and>
         (rounds_like_float rnd \<longrightarrow> 1 < rnd 1.04) \<and>
         ballY s' = real_of_int (paddleY - ballR) \<and> ballX s' = ballX s \<and>
         sfx s' = sfx s @ [PaddleHit] \<and>
         score s' = score s \<and> gameState s' = gameState s"
proof -
  have s': "s' = paddleBounce rnd s"
    using assms(1-3) by (simp add: updateBall_paddle_cases missed_def)
  have down: "- \<bar>ballVY s\<bar> < 0"
    using assms(1) by (simp add: atPaddleLine_def)
  have acc: "1 < rnd 1.04" if "rounds_like_float rnd"
  proof -
    have "rnd (33 / 32) \<le> rnd 1.04"
      by (rule rounds_mono [OF that]) simp
    with rounds_exact(2) [OF that] show ?thesis by simp
  qed
  have vx: "ballVX s' =
           rnd (max (- rnd 2.8) (min (rnd 2.8) (rnd (ballVX s + rnd (offset * rnd 0.8))))
                * rnd 1.04)"
    unfolding s' assms(4)
    by (simp add: paddleBounce_def Let_def sfxPaddleHit_def max_def min_def)
  have rest: "ballVY s' = rnd (- \<bar>ballVY s\<bar> * rnd 1.04)"
    "ballY s' = real_of_int (paddleY - ballR)" "ballX s' = ballX s"
    "sfx s' = sfx s @ [PaddleHit]" "score s' = score s" "gameState s' = gameState s"
    unfolding s' by (simp_all add: paddleBounce_def Let_def sfxPaddleHit_def)
  from down acc vx rest show ?thesis by simp
qed

theorem paddle_hit_response_witness:
  "atPaddleLine (\<lambda>x. x) paddleBall \<and> overPaddle (\<lambda>x. x) paddleBall \<and>
   rounds_like_float (\<lambda>x. x) \<and>
   ballVY (updateBall_paddle (\<lambda>x. x) (idle 3770) paddleBall) = - 2 * 1.04 \<and>
   ballVX (updateBall_paddle (\<lambda>x. x) (idle 3770) paddleBall) = (1 + 1 / 2 * 0.8) * 1.04 \<and>
   ballY (updateBall_paddle (\<lambda>x. x) (idle 3770) paddleBall) = 57 \<and>
   sfx (updateBall_paddle (\<lambda>x. x) (idle 3770) paddleBall) = sfx paddleBall @ [PaddleHit]"
proof -
  have a: "atPaddleLine (\<lambda>x. x) paddleBall" and o: "overPaddle (\<lambda>x. x) paddleBall"
    by (simp_all add: atPaddleLine_def overPaddle_def paddleBall_def lastBall_def paddleY_def
        SCREEN_HEIGHT_def paddleHeight_def ballR_def paddleWidth_def)
  have r: "rounds_like_float (\<lambda>x. x)"
    by (rule rounds_identity)
  from paddle_hit_response [OF a o refl refl, of "idle 3770"] a o r
  show ?thesis
    by (simp add: paddleBall_def lastBall_def paddleY_def SCREEN_HEIGHT_def paddleHeight_def
        ballR_def paddleWidth_def)
qed

text \<open>
  C8, as the sketch has it. The claim says that the ball is recreated at the start of
  each run and after each lost point. The lost point that ends the run does not recreate
  it: in the game above the tenth miss leaves the ball where it passed the paddle.
\<close>

theorem ball_reset_points_counterexample:
  "gameState (lastBall 50) = STATE_PLAYING \<and>
   loop (\<lambda>x. x) (idle 3770) (lastBall 50) = Some (gameOver 50) \<and>
   score (gameOver 50) = score (lastBall 50) - 1 \<and>
   sfx (gameOver 50) = sfx (lastBall 50) @ [LosePoint] \<and>
   ballX (gameOver 50) = 283 / 10 \<and> ballY (gameOver 50) = 1711 / 30 \<and>
   \<not> seeded (\<lambda>x. x) 0 (gameOver 50) \<and> \<not> seeded (\<lambda>x. x) 1 (gameOver 50)"
  using last_frame [of 50]
  by (simp add: lastBall_def gameOver_def seeded_def SCREEN_WIDTH_def word_less_def)

text \<open>
  C8, amended. \<open>resetBall()\<close> puts the ball on the seed position with the base speed,
  downward, to the left or to the right as \<open>random(0, 2)\<close> decides. That happens on the
  frame that starts a run and on every frame that loses a point and leaves the score
  above 0. The frame that loses the last point leaves the ball as the bounces left it
  and ends the run.
\<close>

theorem ball_reset_points:
  assumes "loop rnd i s = Some s'"
    and "FRAME_INTERVAL \<le> now i - lastFrameMs s"
    and "b = beforePaddle rnd i (s\<lparr>lastFrameMs := now i\<rparr>)"
  shows "seeded rnd r (resetBall rnd r t) \<and>
         (rounds_like_float rnd \<longrightarrow> 0 < rnd 1.7) \<and>
         (gameState s = STATE_START \<and> gameState s' = STATE_PLAYING \<longrightarrow>
            seeded rnd (rand i) s') \<and>
         (gameState s = STATE_PLAYING \<and> missed rnd b \<and> 1 < score s \<longrightarrow>
            seeded rnd (rand i) s' \<and> score s' = score s - 1 \<and>
            gameState s' = STATE_PLAYING) \<and>
         (gameState s = STATE_PLAYING \<and> missed rnd b \<and> score s \<le> 1 \<longrightarrow>
            ballX s' = ballX b \<and> ballY s' = ballY b \<and>
            ballVX s' = ballVX b \<and> ballVY s' = ballVY b \<and>
            score s' = score s - 1 \<and> gameState s' = STATE_GAMEOVER)"
proof -
  have down: "0 < rnd 1.7" if "rounds_like_float rnd"
  proof -
    have "rnd 1 \<le> rnd 1.7"
      by (rule rounds_mono [OF that]) simp
    with rounds_exact(1) [OF that] show ?thesis by simp
  qed
  have start: "seeded rnd (rand i) s'"
    if "gameState s = STATE_START" "gameState s' = STATE_PLAYING"
  proof -
    from assms(2) have "\<not> now i - lastFrameMs s < FRAME_INTERVAL" by simp
    with assms(1) that(1) have "loop_start rnd i (s\<lparr>lastFrameMs := now i\<rparr>) = Some s'"
      by (simp add: loop_def)
    from loop_start_seeded [OF this] that show ?thesis by simp
  qed
  have s': "s' = updateBall_paddle rnd i b" if "gameState s = STATE_PLAYING"
  proof -
    from assms(2) have "\<not> now i - lastFrameMs s < FRAME_INTERVAL" by simp
    with assms(1,3) that show ?thesis by (simp add: loop_def loop_playing_split)
  qed
  have more: "seeded rnd (rand i) s' \<and> score s' = score s - 1 \<and> gameState s' = STATE_PLAYING"
    if "gameState s = STATE_PLAYING" "missed rnd b" "1 < score s"
  proof -
    have "1 < score b" using that(3) assms(3) by simp
    with that(2) s' [OF that(1)]
    have "s' = resetBall rnd (rand i) (sfxLosePoint (b\<lparr>score := score b - 1\<rparr>))"
      by (simp add: updateBall_paddle_cases losePoint_more)
    with that(1) show ?thesis
      by (simp add: seeded_resetBall sfxLosePoint_def assms(3))
  qed
  have last: "ballX s' = ballX b \<and> ballY s' = ballY b \<and>
            ballVX s' = ballVX b \<and> ballVY s' = ballVY b \<and>
            score s' = score s - 1 \<and> gameState s' = STATE_GAMEOVER"
    if "gameState s = STATE_PLAYING" "missed rnd b" "score s \<le> 1"
  proof -
    have "score b \<le> 1" using that(3) assms(3) by simp
    with that(2) s' [OF that(1)]
    have "s' = (captureFinalTimeAndUpdateBest (msCapture i)
                 (sfxLosePoint (b\<lparr>score := score b - 1\<rparr>)))\<lparr>gameState := STATE_GAMEOVER\<rparr>"
      by (simp add: updateBall_paddle_cases losePoint_last)
    then show ?thesis
      by (simp add: sfxLosePoint_def assms(3))
  qed
  from down start more last seeded_resetBall show ?thesis by blast
qed

theorem ball_reset_points_witness:
  "loop (\<lambda>x. x) (idle 557) firstBall =
     Some (firstBall\<lparr>score := 9, lastFrameMs := 557, ballX := 64, ballY := 64 / 3,
             sfx := [StartFirst, LosePoint]\<rparr>) \<and>
   gameState firstBall = STATE_PLAYING \<and> score firstBall = 10 \<and>
   FRAME_INTERVAL \<le> now (idle 557) - lastFrameMs firstBall \<and>
   missed (\<lambda>x. x) (beforePaddle (\<lambda>x. x) (idle 557) (firstBall\<lparr>lastFrameMs := 557\<rparr>)) \<and>
   seeded (\<lambda>x. x) 0 (firstBall\<lparr>score := 9, lastFrameMs := 557, ballX := 64, ballY := 64 / 3,
             sfx := [StartFirst, LosePoint]\<rparr>) \<and>
   rounds_like_float (\<lambda>x. x)"
proof -
  let ?s' = "firstBall\<lparr>score := 9, lastFrameMs := 557, ballX := 64, ballY := 64 / 3,
             sfx := [StartFirst, LosePoint]\<rparr>"
  have l: "loop (\<lambda>x. x) (idle 557) firstBall = Some ?s'"
    by (simp add: model_defs tick_defs firstBall_def lastBall_def)
  have f: "FRAME_INTERVAL \<le> now (idle 557) - lastFrameMs firstBall"
    by (simp add: FRAME_INTERVAL_def FPS_def idle_def firstBall_def lastBall_def word_le_def)
  have m: "missed (\<lambda>x. x)
             (beforePaddle (\<lambda>x. x) (idle 557) (firstBall\<lparr>lastFrameMs := now (idle 557)\<rparr>))"
    by (simp add: missed_def atPaddleLine_def overPaddle_def beforePaddle_def model_defs
        tick_defs firstBall_def lastBall_def)
  have r: "rounds_like_float (\<lambda>x. x)"
    by (rule rounds_identity)
  from ball_reset_points [OF l f refl, where r = 0 and t = firstBall] l f m r
  show ?thesis by (simp add: idle_def firstBall_def lastBall_def)
qed

text \<open>
  C9. On every PLAYING tick, after input handling the paddle's horizontal position lies
  within \<open>[0, SCREEN_WIDTH - paddleWidth]\<close>, whichever buttons are pressed, both at once
  included. It holds for every state, every input and every rounding function, right
  after \<open>handleButtonsPaddle\<close> and at the end of the PLAYING branch of \<open>loop()\<close>.
\<close>

theorem paddle_within_field:
  "0 \<le> paddleX (handleButtonsPaddle rnd i s) \<and>
   paddleX (handleButtonsPaddle rnd i s) \<le> real_of_int (SCREEN_WIDTH - paddleWidth) \<and>
   0 \<le> paddleX (loop_playing rnd i s) \<and>
   paddleX (loop_playing rnd i s) \<le> real_of_int (SCREEN_WIDTH - paddleWidth)"
proof -
  have "0 \<le> paddleX (handleButtonsPaddle rnd i t) \<and>
        paddleX (handleButtonsPaddle rnd i t) \<le> real_of_int (SCREEN_WIDTH - paddleWidth)" for t
    by (simp add: handleButtonsPaddle_def Let_def SCREEN_WIDTH_def paddleWidth_def)
  then show ?thesis by (simp add: loop_playing_def)
qed

text \<open>
  C10, as the sketch has it. The claim says that for every seconds value and every
  capacity \<open>n \<ge> 6\<close> the formatter writes the rendering. From 100 minutes on the
  rendering has more than five characters and \<open>snprintf\<close> cuts it to the capacity: with
  \<open>n = 6\<close>, 6000 seconds are written as \<open>100:0\<close>.
\<close>

theorem formatTimeMMSS_counterexample:
  "(6::nat) \<le> 6 \<and> length ''xxxxxx'' = 6 \<and>
   mmss 6000 = ''100:00'' \<and>
   cstr (formatTimeMMSS 6000 ''xxxxxx'' 6) = ''100:0'' \<and>
   cstr (formatTimeMMSS 6000 ''xxxxxx'' 6) \<noteq> mmss 6000"
proof -
  have m: "mmss 6000 = ''100:00''"
    by (simp add: mmss_def fmt02u_def udec.simps digit_def)
  have "formatTimeMMSS 6000 ''xxxxxx'' 6 = snprintf ''xxxxxx'' 6 (mmss 6000)"
    by (rule formatTimeMMSS_mmss) simp
  then have "cstr (formatTimeMMSS 6000 ''xxxxxx'' 6) = ''100:0''"
    by (simp add: m snprintf_def cstr_def)
  with m show ?thesis by simp
qed

text \<open>
  C10, amended. For a buffer of at least \<open>n\<close> bytes: when \<open>n \<ge> 6\<close> the formatter writes
  the rendering \<open>"%02u:%02u"\<close> of \<open>(secs / 60, secs % 60)\<close> cut to its first \<open>n - 1\<close>
  characters, which is the whole rendering whenever \<open>secs < 6000\<close> or \<open>n \<ge> 8\<close> (125
  gives \<open>02:05\<close>, 0 gives \<open>00:00\<close>); when \<open>0 < n < 6\<close> it writes the empty string; when
  \<open>n = 0\<close> it writes nothing. It never writes behind the first \<open>n\<close> bytes and has no
  error to report.
\<close>

theorem formatTimeMMSS_writes:
  assumes "n \<le> length out"
  shows "(6 \<le> n \<longrightarrow> cstr (formatTimeMMSS secs out n) = take (n - 1) (mmss secs)) \<and>
         (6 \<le> n \<and> (secs < 6000 \<or> 8 \<le> n) \<longrightarrow> cstr (formatTimeMMSS secs out n) = mmss secs) \<and>
         (0 < n \<and> n < 6 \<longrightarrow> cstr (formatTimeMMSS secs out n) = []) \<and>
         (n = 0 \<longrightarrow> formatTimeMMSS secs out n = out) \<and>
         length (formatTimeMMSS secs out n) = length out \<and>
         drop n (formatTimeMMSS secs out n) = drop n out \<and>
         mmss 125 = ''02:05'' \<and> mmss 0 = ''00:00''"
proof -
  have big: "cstr (formatTimeMMSS secs out n) = take (n - 1) (mmss secs)" if "6 \<le> n"
    using that cstr_snprintf [OF mmss_no_NUL [of secs], where n = n and out = out]
    by (simp add: formatTimeMMSS_def mmss_def Let_def)
  have fits: "cstr (formatTimeMMSS secs out n) = mmss secs"
    if "6 \<le> n" "secs < 6000 \<or> 8 \<le> n"
  proof -
    have "length (mmss secs) \<le> n - 1"
      using that length_mmss [of secs] length_mmss_short [of secs] by auto
    with big [OF that(1)] show ?thesis by simp
  qed
  have small: "cstr (formatTimeMMSS secs out n) = []" if "0 < n" "n < 6"
  proof -
    from that assms obtain c rest where "out = c # rest" by (cases out) auto
    with that show ?thesis by (simp add: formatTimeMMSS_def cstr_def Let_def)
  qed
  have none: "formatTimeMMSS secs out n = out" if "n = 0"
    using that by (simp add: formatTimeMMSS_def Let_def)
  have len: "length (formatTimeMMSS secs out n) = length out"
    using assms by (auto simp: formatTimeMMSS_def snprintf_def Let_def)
  have rest: "drop n (formatTimeMMSS secs out n) = drop n out"
  proof (cases "6 \<le> n")
    case True
    let ?w = "take (n - 1) (mmss secs) @ [CHR 0x00]"
    have w: "length ?w \<le> n" using True by simp
    have "formatTimeMMSS secs out n = ?w @ drop (length ?w) out"
      using True by (simp add: formatTimeMMSS_def snprintf_def Let_def mmss_def)
    with drop_overwrite [OF w, of out] show ?thesis by simp
  next
    case False
    then show ?thesis
      by (cases out) (auto simp: formatTimeMMSS_def Let_def drop_Cons split: nat.splits)
  qed
  have ex: "mmss 125 = ''02:05''" "mmss 0 = ''00:00''"
    by (simp_all add: mmss_def fmt02u_def udec.simps digit_def)
  from big fits small none len rest ex show ?thesis by blast
qed

theorem formatTimeMMSS_writes_witness:
  "(8::nat) \<le> length ''xxxxxxxx'' \<and>
   cstr (formatTimeMMSS 125 ''xxxxxxxx'' 8) = ''02:05'' \<and>
   cstr (formatTimeMMSS 0 ''xxxxxxxx'' 8) = ''00:00'' \<and>
   cstr (formatTimeMMSS 65535 ''xxxxxxxx'' 8) = ''1092:15'' \<and>
   cstr (formatTimeMMSS 6000 ''xxxxxxxx'' 6) = ''100:0'' \<and>
   cstr (formatTimeMMSS 125 ''xxxxxxxx'' 5) = [] \<and>
   formatTimeMMSS 125 ''xxxxxxxx'' 0 = ''xxxxxxxx''"
proof -
  have l: "n \<le> length ''xxxxxxxx''" if "n \<le> 8" for n :: nat
    using that by simp
  have m: "mmss 65535 = ''1092:15''" "mmss 6000 = ''100:00''"
    by (simp_all add: mmss_def fmt02u_def udec.simps digit_def)
  from formatTimeMMSS_writes [OF l, of 8 125] formatTimeMMSS_writes [OF l, of 8 0]
    formatTimeMMSS_writes [OF l, of 8 65535] formatTimeMMSS_writes [OF l, of 6 6000]
    formatTimeMMSS_writes [OF l, of 5 125] formatTimeMMSS_writes [OF l, of 0 125] m
  show ?thesis by simp
qed

end
